theory Spec2Isabelle
  imports Main
begin

section \<open>The grid container\<close>

text \<open>
  Modelled from the spec: the \<^verbatim>\<open>Grid<int>\<close> of the course library (\<^verbatim>\<open>grid.h\<close> is not
  among the sources), which the specification describes as a two-dimensional,
  row-major, zero-based container of integer cell ages with bounds-checked
  access. The model keeps the row count, the column count and the rows. A value
  built by the library always has \<open>rowCount\<close> rows of \<open>columnCount\<close> cells each;
  \<open>wellFormed\<close> says so.

  Cells are C++ \<^verbatim>\<open>int\<close>. No arithmetic of the program can overflow (an age is
  incremented only when it is below \<open>kMaxAge\<close>, a neighbour count is at most 8, an
  index is offset by at most 1 from an index inside the grid), so \<open>int\<close> models it
  exactly.
\<close>

record Grid =
  rowCount :: nat
  columnCount :: nat
  elements :: "int list list"

definition wellFormed :: "Grid \<Rightarrow> bool" where
  "wellFormed g =
     (length (elements g) = rowCount g \<and>
      list_all (\<lambda>r. length r = columnCount g) (elements g))"

definition numRows :: "Grid \<Rightarrow> int" where
  "numRows g = int (rowCount g)"

definition numCols :: "Grid \<Rightarrow> int" where
  "numCols g = int (columnCount g)"

definition inBounds :: "Grid \<Rightarrow> int \<Rightarrow> int \<Rightarrow> bool" where
  "inBounds g row col = (row \<ge> 0 \<and> col \<ge> 0 \<and> row < numRows g \<and> col < numCols g)"

text \<open>
  \<^verbatim>\<open>grid[row][col]\<close> read and written. The library raises an error for a position
  that \<open>inBounds\<close> rejects; every subscript of the functions below stands under a
  loop bound or under the \<open>inBounds\<close> test of \<open>countNeighborCell\<close>, so that error
  is never reached and the subscript is modelled by the plain list access.
\<close>

definition cell :: "Grid \<Rightarrow> int \<Rightarrow> int \<Rightarrow> int" where
  "cell g row col = elements g ! nat row ! nat col"

definition setCell :: "Grid \<Rightarrow> int \<Rightarrow> int \<Rightarrow> int \<Rightarrow> Grid" where
  "setCell g row col v =
     g\<lparr>elements := (elements g)[nat row := (elements g ! nat row)[nat col := v]]\<rparr>"

text \<open>
  \<^verbatim>\<open>Grid<int> g(rows, cols)\<close>: every cell value-initialised to 0. The library
  rejects a negative size; the one caller that can pass one (\<open>readGridFromFile\<close>)
  tests for it before it comes here.
\<close>

definition newGridOf :: "int \<Rightarrow> int \<Rightarrow> Grid" where
  "newGridOf rows cols =
     \<lparr>rowCount = nat rows, columnCount = nat cols,
      elements = replicate (nat rows) (replicate (nat cols) 0)\<rparr>"

text \<open>The cells in the order of \<^verbatim>\<open>for (auto &cell : grid)\<close>: row by row.\<close>

definition cellsOf :: "Grid \<Rightarrow> int list" where
  "cellsOf g = concat (elements g)"

section \<open>The rules engine\<close>

text \<open>
  \<open>kMaxAge\<close> comes from \<^verbatim>\<open>life-constants.h\<close>, which is not among the sources; it is
  a parameter of every function that reads it.
\<close>

definition countNeighborCell :: "Grid \<Rightarrow> int \<Rightarrow> int \<Rightarrow> int" where
  "countNeighborCell grid row col =
     fold (\<lambda>drow. fold (\<lambda>dcol count.
             if drow = 0 \<and> dcol = 0 then count
             else (let y = row + drow; x = col + dcol in
                   if inBounds grid y x \<and> cell grid y x > 0 then count + 1 else count))
           [-1..1])
       [-1..1] 0"

definition cloneGrid :: "Grid \<Rightarrow> Grid" where
  "cloneGrid grid =
     fold (\<lambda>row. fold (\<lambda>col newGrid. setCell newGrid row col (cell grid row col))
                   [0..numCols grid - 1])
       [0..numRows grid - 1]
       (newGridOf (numRows grid) (numCols grid))"

text \<open>
  The body of the inner loop of \<open>generateNextGenerationGrid\<close>. The function takes
  \<open>grid\<close> by non-const reference and owns the local \<open>newGrid\<close>; the state that the
  loops thread is the pair of the two objects, so that a write to either would
  show.
\<close>

fun nextCell :: "int \<Rightarrow> int \<Rightarrow> int \<Rightarrow> Grid \<times> Grid \<Rightarrow> Grid \<times> Grid" where
  "nextCell kMaxAge row col (grid, newGrid) =
     (let numNeighborCell = countNeighborCell grid row col in
      if numNeighborCell \<le> 1 \<or> numNeighborCell > 3 then
        (grid, setCell newGrid row col 0)
      else if numNeighborCell = 2 then
        (if cell grid row col > 0 \<and> cell grid row col < kMaxAge
         then (grid, setCell newGrid row col (cell newGrid row col + 1))
         else (grid, newGrid))
      else
        (if cell grid row col < kMaxAge
         then (grid, setCell newGrid row col (cell newGrid row col + 1))
         else (grid, newGrid)))"

text \<open>
  The result is the returned grid paired with the caller's grid as the call
  leaves it. The two loops run over the rows and columns of \<open>grid\<close>, whose sizes
  no statement of the function changes.
\<close>

definition generateNextGenerationGrid :: "int \<Rightarrow> Grid \<Rightarrow> Grid \<times> Grid" where
  "generateNextGenerationGrid kMaxAge grid =
     (let newGrid = cloneGrid grid;
          (grid', newGrid') =
            fold (\<lambda>row. fold (nextCell kMaxAge row) [0..numCols grid - 1])
              [0..numRows grid - 1] (grid, newGrid)
      in (newGrid', grid'))"


section \<open>The stability detector\<close>

text \<open>
  \<^verbatim>\<open>isStableGrid\<close> of the final revision: the range-for leaves with \<^verbatim>\<open>false\<close> at the
  first cell of \<open>newGrid\<close> that is alive and below \<open>kMaxAge\<close>; otherwise the result
  is the library's \<^verbatim>\<open>==\<close>, which compares the two counts and every cell, that is
  equality of the modelled values.
\<close>

definition isStableGrid :: "int \<Rightarrow> Grid \<Rightarrow> Grid \<Rightarrow> bool" where
  "isStableGrid kMaxAge currGrid newGrid =
     (if list_ex (\<lambda>age. age > 0 \<and> age < kMaxAge) (cellsOf newGrid) then False
      else currGrid = newGrid)"

text \<open>
  The earlier revision kept in \<^verbatim>\<open>life.cpp\<close> scans \<open>currGrid\<close> instead and leaves
  the loop with \<^verbatim>\<open>break\<close>.
\<close>

definition isStableGrid_life :: "int \<Rightarrow> Grid \<Rightarrow> Grid \<Rightarrow> bool" where
  "isStableGrid_life kMaxAge currGrid newGrid =
     (let isStable = \<not> list_ex (\<lambda>age. age > 0 \<and> age < kMaxAge) (cellsOf currGrid)
      in isStable \<and> currGrid = newGrid)"

section \<open>The display and the step\<close>

text \<open>
  Modelled from the spec: the display. \<^verbatim>\<open>LifeDisplay\<close> is declared in
  \<^verbatim>\<open>life-graphics.h\<close> and its implementation is not among the sources; the
  specification gives it as a sink of per-cell draw commands, a textual dump
  request and a repaint trigger. It is modelled by the sequence of the calls it
  has received.
\<close>

datatype displayCall =
  SetDimensions int int
  | DrawCellAt int int int
  | PrintBoard
  | Repaint

type_synonym LifeDisplay = "displayCall list"

definition drawGrid :: "LifeDisplay \<Rightarrow> Grid \<Rightarrow> LifeDisplay" where
  "drawGrid disp grid =
     fold (\<lambda>row. fold (\<lambda>col disp. disp @ [DrawCellAt row col (cell grid row col)])
                   [0..numCols grid - 1])
       [0..numRows grid - 1] disp
     @ [PrintBoard, Repaint]"

text \<open>
  \<^verbatim>\<open>advanceGrid(disp, grid)\<close>: the result is the returned flag, the display and the
  caller's grid after the call.
\<close>

definition advanceGrid :: "int \<Rightarrow> LifeDisplay \<Rightarrow> Grid \<Rightarrow> bool \<times> LifeDisplay \<times> Grid" where
  "advanceGrid kMaxAge disp grid =
     (let (newGrid, grid) = generateNextGenerationGrid kMaxAge grid;
          canAdvance = \<not> isStableGrid kMaxAge grid newGrid;
          grid = newGrid;
          disp = drawGrid disp grid
      in (canAdvance, disp, grid))"

section \<open>The two drivers\<close>

text \<open>
  The program leaves through \<^verbatim>\<open>exit(code)\<close> after a message, through an error
  raised by the course library, or by reading a string beyond its end.
\<close>

datatype abort =
  Exit int string
  | LibraryError
  | UndefinedRead

text \<open>
  \<^verbatim>\<open>runAnimation\<close> waits for the next timer or mouse event. The events that arrive
  are a list; when it is used up before the loop has left, the loop waits for
  ever and the result is \<open>None\<close>. The timer interval only paces the events.
\<close>

datatype GEvent = TimerEvent | MousePressed | OtherMouseEvent

fun runAnimation ::
  "int \<Rightarrow> GEvent list \<Rightarrow> LifeDisplay \<times> Grid \<Rightarrow> (LifeDisplay \<times> Grid) option" where
  "runAnimation kMaxAge [] (disp, grid) = None"
| "runAnimation kMaxAge (ev # evs) (disp, grid) =
     (if ev = TimerEvent then
        (let (canAdvance, disp', grid') = advanceGrid kMaxAge disp grid in
         if \<not> canAdvance then Some (disp', grid')
         else runAnimation kMaxAge evs (disp', grid'))
      else if ev = MousePressed then Some (disp, grid)
      else runAnimation kMaxAge evs (disp, grid))"

text \<open>
  \<^verbatim>\<open>getline(cin, line)\<close> on the lines the operator types. At the end of the input
  the call gives the empty line (and goes on giving it).
\<close>

fun getlineCin :: "string list \<Rightarrow> string \<times> string list" where
  "getlineCin [] = ([], [])"
| "getlineCin (line # rest) = (line, rest)"

text \<open>
  One pass through the body of the loop of \<^verbatim>\<open>runManualAnimation\<close>, after the line
  is read: \<open>Inl\<close> when the program ends, else whether the loop is left and the
  display and grid.
\<close>

definition manualStep ::
  "int \<Rightarrow> string \<Rightarrow> LifeDisplay \<times> Grid \<Rightarrow> abort + bool \<times> LifeDisplay \<times> Grid" where
  "manualStep kMaxAge line s =
     (let isEnter = (line = []);
          (cond, s') =
            (if isEnter then
               (let (canAdvance, disp', grid') = advanceGrid kMaxAge (fst s) (snd s)
                in (\<not> canAdvance, disp', grid'))
             else (False, s))
      in if cond \<or> line = ''quit'' then Inr (True, s')
         else if \<not> isEnter then Inl (Exit 0 ''Command not support, quitting'')
         else Inr (False, s'))"

partial_function (option) runManualAnimation ::
  "int \<Rightarrow> string list \<Rightarrow> LifeDisplay \<times> Grid \<Rightarrow> (abort + string list \<times> LifeDisplay \<times> Grid) option" where
  "runManualAnimation kMaxAge input s =
     (case getlineCin input of (line, rest) \<Rightarrow>
        (case manualStep kMaxAge line s of
           Inl e \<Rightarrow> Some (Inl e)
         | Inr (leave, s') \<Rightarrow>
             if leave then Some (Inr (rest, s')) else runManualAnimation kMaxAge rest s'))"

declare runManualAnimation.simps [code]

text \<open>
  The speed prompt of \<^verbatim>\<open>main\<close>: the line read after the menu gives the interval
  of the timer in milliseconds, or ends the program.
\<close>

definition main_speed :: "string \<Rightarrow> abort + int" where
  "main_speed line =
     (if line = ''1'' then Inr 1000
      else if line = ''2'' then Inr 500
      else if line = ''3'' then Inr 100
      else Inl (Exit 1 ''The option is not supported, quitting''))"

section \<open>The two sources of the first grid\<close>

definition kLowerBound :: int where
  "kLowerBound = 40"

definition kUpperBound :: int where
  "kUpperBound = 60"

text \<open>\<^verbatim>\<open>enum CellState : int { Empty = 0, Occupied = 1 }\<close>\<close>

definition Empty :: int where
  "Empty = 0"

definition Occupied :: int where
  "Occupied = 1"

text \<open>
  \<^verbatim>\<open>generateRandomGrid\<close> draws from the standard library's generator. The model
  takes the generator as a state \<open>gen\<close> and the drawing as a parameter:
  \<open>draw lo hi gen\<close> is the number that a \<^verbatim>\<open>uniform_int_distribution<>(lo, hi)\<close>
  gives on \<open>gen\<close>, with the generator after it. Width is drawn before height,
  and for each cell, in the order of the range-for, the coin before the age.
\<close>

definition generateRandomGrid ::
  "int \<Rightarrow> (int \<Rightarrow> int \<Rightarrow> 'g \<Rightarrow> int \<times> 'g) \<Rightarrow> 'g \<Rightarrow> Grid" where
  "generateRandomGrid kMaxAge draw gen =
     (let (width, gen) = draw kLowerBound kUpperBound gen;
          (height, gen) = draw kLowerBound kUpperBound gen;
          grid = newGridOf height width;
          (grid, gen) =
            fold (\<lambda>row. fold (\<lambda>col (grid, gen).
                    let (coin, gen) = draw 0 1 gen in
                    if coin = 1 then
                      (let (age, gen) = draw 1 kMaxAge gen in (setCell grid row col age, gen))
                    else (setCell grid row col Empty, gen))
                  [0..numCols grid - 1])
              [0..numRows grid - 1] (grid, gen)
      in grid)"

text \<open>
  \<^verbatim>\<open>std::ifstream\<close> and \<^verbatim>\<open>std::getline\<close>: the unread characters and the two state
  bits. A call on a stream that is no longer good sets \<open>failbit\<close> and leaves
  \<open>line\<close> as it was; otherwise the line is replaced by the characters up to the
  next newline, which is consumed, or up to the end, which sets \<open>eofbit\<close>, and
  \<open>failbit\<close> too when nothing was read.
\<close>

record ifstream =
  unread :: string
  eofbit :: bool
  failbit :: bool

definition getline :: "ifstream \<Rightarrow> string \<Rightarrow> ifstream \<times> string" where
  "getline file line =
     (if eofbit file \<or> failbit file then (file\<lparr>failbit := True\<rparr>, line)
      else (let l = takeWhile (\<lambda>ch. ch \<noteq> CHR 0x0A) (unread file) in
            case dropWhile (\<lambda>ch. ch \<noteq> CHR 0x0A) (unread file) of
              [] \<Rightarrow> (file\<lparr>unread := [], eofbit := True, failbit := (l = [])\<rparr>, l)
            | nl # r \<Rightarrow> (file\<lparr>unread := r\<rparr>, l)))"

text \<open>
  \<^verbatim>\<open>line[col]\<close> on a \<^verbatim>\<open>std::string\<close>: the character, the terminating zero at
  \<open>col = size\<close>, and no defined value beyond.
\<close>

definition charAt :: "string \<Rightarrow> int \<Rightarrow> char option" where
  "charAt line col =
     (if 0 \<le> col \<and> col < int (length line) then Some (line ! nat col)
      else if col = int (length line) then Some (CHR 0x00)
      else None)"

text \<open>
  The \<^verbatim>\<open>while (true)\<close> of \<^verbatim>\<open>readGridFromFile\<close> that skips the comment lines and
  reads the two sizes. \<^verbatim>\<open>stringToInteger\<close> belongs to the course library and is a
  parameter: \<open>None\<close> where it raises its error. The loop does not end on a stream
  that has failed while \<open>line\<close> starts with \<^verbatim>\<open>#\<close>; the result is then \<open>None\<close>.
\<close>

partial_function (option) readGridFromFile_sizes ::
  "(string \<Rightarrow> int option) \<Rightarrow> ifstream \<Rightarrow> string \<Rightarrow> (abort + int \<times> int \<times> ifstream \<times> string) option" where
  "readGridFromFile_sizes stringToInteger file line =
     (case getline file line of (file, line) \<Rightarrow>
        if charAt line 0 = Some CHR ''#'' then readGridFromFile_sizes stringToInteger file line
        else (case stringToInteger line of
                None \<Rightarrow> Some (Inl LibraryError)
              | Some height \<Rightarrow>
                  (case getline file line of (file, line) \<Rightarrow>
                     (case stringToInteger line of
                        None \<Rightarrow> Some (Inl LibraryError)
                      | Some width \<Rightarrow> Some (Inr (height, width, file, line))))))"

declare readGridFromFile_sizes.simps [code]

text \<open>The inner loop over the columns of one row, and the loop over the rows.\<close>

fun readGridFromFile_row :: "string \<Rightarrow> int \<Rightarrow> int list \<Rightarrow> Grid \<Rightarrow> abort + Grid" where
  "readGridFromFile_row line row [] grid = Inr grid"
| "readGridFromFile_row line row (col # cols) grid =
     (case charAt line col of
        None \<Rightarrow> Inl UndefinedRead
      | Some ch \<Rightarrow>
          readGridFromFile_row line row cols
            (setCell grid row col (if ch = CHR ''X'' then Occupied else Empty)))"

fun readGridFromFile_rows :: "ifstream \<Rightarrow> string \<Rightarrow> int list \<Rightarrow> Grid \<Rightarrow> abort + Grid" where
  "readGridFromFile_rows file line [] grid = Inr grid"
| "readGridFromFile_rows file line (row # rows) grid =
     (case getline file line of (file, line) \<Rightarrow>
        (case readGridFromFile_row line row [0..numCols grid - 1] grid of
           Inl e \<Rightarrow> Inl e
         | Inr grid \<Rightarrow> readGridFromFile_rows file line rows grid))"

text \<open>
  The files are a map from names to contents; a name without a content cannot
  be opened. The library's \<^verbatim>\<open>Grid\<close> constructor raises its error on a negative
  size.
\<close>

definition readGridFromFile ::
  "(string \<rightharpoonup> string) \<Rightarrow> (string \<Rightarrow> int option) \<Rightarrow> string \<Rightarrow> (abort + Grid) option" where
  "readGridFromFile files stringToInteger filename =
     (case files filename of
        None \<Rightarrow> Some (Inl (Exit 1 (''Can not open file '' @ filename)))
      | Some text \<Rightarrow>
          (case readGridFromFile_sizes stringToInteger
                  \<lparr>unread = text, eofbit = False, failbit = False\<rparr> [] of
             None \<Rightarrow> None
           | Some (Inl e) \<Rightarrow> Some (Inl e)
           | Some (Inr (height, width, file, line)) \<Rightarrow>
               if height < 0 \<or> width < 0 then Some (Inl LibraryError)
               else (let grid = newGridOf height width
                     in Some (readGridFromFile_rows file line [0..numRows grid - 1] grid))))"

section \<open>The revision in life.cpp\<close>

text \<open>
  \<^verbatim>\<open>life.cpp\<close> holds an earlier revision of the program. Its
  \<^verbatim>\<open>generateRandomGrid\<close>, \<^verbatim>\<open>readGridFromFile\<close>, \<^verbatim>\<open>drawGrid\<close> and \<^verbatim>\<open>runAnimation\<close> read
  as those above. Its \<^verbatim>\<open>generateNextGenerationGrid\<close> copies the grid and only ages
  the cells that are alive and below \<open>kMaxAge\<close>; there is no neighbour rule yet.
  The range-for assigns through a reference to each cell of the copy.
\<close>

definition generateNextGenerationGrid_life :: "int \<Rightarrow> Grid \<Rightarrow> Grid \<times> Grid" where
  "generateNextGenerationGrid_life kMaxAge grid =
     (let newGrid = grid;
          newGrid = newGrid\<lparr>elements :=
            map (map (\<lambda>age. if age > 0 \<and> age < kMaxAge then age + 1 else age))
              (elements newGrid)\<rparr>
      in (newGrid, grid))"

text \<open>
  \<^verbatim>\<open>advanceGrid\<close> of \<^verbatim>\<open>life.cpp\<close> has the text of the final one and calls the
  functions of its own file.
\<close>

definition advanceGrid_life :: "int \<Rightarrow> LifeDisplay \<Rightarrow> Grid \<Rightarrow> bool \<times> LifeDisplay \<times> Grid" where
  "advanceGrid_life kMaxAge disp grid =
     (let (newGrid, grid) = generateNextGenerationGrid_life kMaxAge grid;
          canAdvance = \<not> isStableGrid_life kMaxAge grid newGrid;
          grid = newGrid;
          disp = drawGrid disp grid
      in (canAdvance, disp, grid))"

fun runAnimation_life ::
  "int \<Rightarrow> GEvent list \<Rightarrow> LifeDisplay \<times> Grid \<Rightarrow> (LifeDisplay \<times> Grid) option" where
  "runAnimation_life kMaxAge [] (disp, grid) = None"
| "runAnimation_life kMaxAge (ev # evs) (disp, grid) =
     (if ev = TimerEvent then
        (let (canAdvance, disp', grid') = advanceGrid_life kMaxAge disp grid in
         if \<not> canAdvance then Some (disp', grid')
         else runAnimation_life kMaxAge evs (disp', grid'))
      else if ev = MousePressed then Some (disp, grid)
      else runAnimation_life kMaxAge evs (disp, grid))"

text \<open>
  \<^verbatim>\<open>newGridFromUser\<close>: the file name is the next line of the input; an empty name
  asks for a random grid. Each call of \<^verbatim>\<open>generateRandomGrid\<close> seeds a generator of
  its own from \<^verbatim>\<open>std::random_device\<close>; \<open>seed n\<close> is the generator of the call
  number \<open>n\<close>. The state is the unread input with the number of generators
  seeded so far.
\<close>

definition newGridFromUser ::
  "int \<Rightarrow> (string \<rightharpoonup> string) \<Rightarrow> (string \<Rightarrow> int option) \<Rightarrow>
   (int \<Rightarrow> int \<Rightarrow> 'g \<Rightarrow> int \<times> 'g) \<Rightarrow> (nat \<Rightarrow> 'g) \<Rightarrow>
   string list \<times> nat \<Rightarrow> (abort + Grid \<times> string list \<times> nat) option" where
  "newGridFromUser kMaxAge files stringToInteger draw seed w =
     (case getlineCin (fst w) of (filename, rest) \<Rightarrow>
        if filename = [] then
          Some (Inr (generateRandomGrid kMaxAge draw (seed (snd w)), rest, Suc (snd w)))
        else (case readGridFromFile files stringToInteger filename of
                None \<Rightarrow> None
              | Some (Inl e) \<Rightarrow> Some (Inl e)
              | Some (Inr grid) \<Rightarrow> Some (Inr (grid, rest, snd w))))"

text \<open>
  The manual loop of \<^verbatim>\<open>life.cpp\<close>. When the step reports that the grid is stable
  the loop asks whether to start a new simulation: an empty line loads a new
  grid and the loop goes on, the line quit leaves, any other line ends the
  program. \<open>sessionPrompt_life\<close> is that inner part, \<open>manualPass_life\<close> one pass
  through the body; \<open>Inr (leave, state)\<close> says whether the loop is left.
\<close>

definition sessionPrompt_life ::
  "int \<Rightarrow> (string \<rightharpoonup> string) \<Rightarrow> (string \<Rightarrow> int option) \<Rightarrow>
   (int \<Rightarrow> int \<Rightarrow> 'g \<Rightarrow> int \<times> 'g) \<Rightarrow> (nat \<Rightarrow> 'g) \<Rightarrow>
   string list \<times> nat \<times> LifeDisplay \<times> Grid \<Rightarrow>
   (abort + bool \<times> string list \<times> nat \<times> LifeDisplay \<times> Grid) option" where
  "sessionPrompt_life kMaxAge files stringToInteger draw seed s =
     (case s of (input, n, disp, grid) \<Rightarrow>
        (case getlineCin input of (line, rest) \<Rightarrow>
           if line = [] then
             (case newGridFromUser kMaxAge files stringToInteger draw seed (rest, n) of
                None \<Rightarrow> None
              | Some (Inl e) \<Rightarrow> Some (Inl e)
              | Some (Inr (grid, rest, n)) \<Rightarrow>
                  Some (Inr (False, rest, n,
                    drawGrid (disp @ [SetDimensions (numRows grid) (numCols grid)]) grid, grid)))
           else if line = ''quit'' then Some (Inr (True, rest, n, disp, grid))
           else Some (Inl (Exit 0 ''Command not support, quitting''))))"

definition manualPass_life ::
  "int \<Rightarrow> (string \<rightharpoonup> string) \<Rightarrow> (string \<Rightarrow> int option) \<Rightarrow>
   (int \<Rightarrow> int \<Rightarrow> 'g \<Rightarrow> int \<times> 'g) \<Rightarrow> (nat \<Rightarrow> 'g) \<Rightarrow>
   string list \<times> nat \<times> LifeDisplay \<times> Grid \<Rightarrow>
   (abort + bool \<times> string list \<times> nat \<times> LifeDisplay \<times> Grid) option" where
  "manualPass_life kMaxAge files stringToInteger draw seed s =
     (case s of (input, n, disp, grid) \<Rightarrow>
        (case getlineCin input of (line, rest) \<Rightarrow>
           if line = [] then
             (let (canAdvance, disp, grid) = advanceGrid_life kMaxAge disp grid in
              if \<not> canAdvance
              then sessionPrompt_life kMaxAge files stringToInteger draw seed (rest, n, disp, grid)
              else Some (Inr (False, rest, n, disp, grid)))
           else if line = ''quit'' then Some (Inr (True, rest, n, disp, grid))
           else Some (Inl (Exit 0 ''Command not support, quitting''))))"

partial_function (option) runManualAnimation_life ::
  "int \<Rightarrow> (string \<rightharpoonup> string) \<Rightarrow> (string \<Rightarrow> int option) \<Rightarrow>
   (int \<Rightarrow> int \<Rightarrow> 'g \<Rightarrow> int \<times> 'g) \<Rightarrow> (nat \<Rightarrow> 'g) \<Rightarrow>
   string list \<times> nat \<times> LifeDisplay \<times> Grid \<Rightarrow>
   (abort + string list \<times> nat \<times> LifeDisplay \<times> Grid) option" where
  "runManualAnimation_life kMaxAge files stringToInteger draw seed s =
     (case manualPass_life kMaxAge files stringToInteger draw seed s of
        None \<Rightarrow> None
      | Some (Inl e) \<Rightarrow> Some (Inl e)
      | Some (Inr (leave, s')) \<Rightarrow>
          if leave then Some (Inr s')
          else runManualAnimation_life kMaxAge files stringToInteger draw seed s')"

declare runManualAnimation_life.simps [code]

section \<open>Notions of the statements\<close>

text \<open>
  The eight positions around \<open>(row, col)\<close> in the order in which the two loops of
  \<open>countNeighborCell\<close> visit them, and the test that the loops apply to each.
\<close>

definition neighborPositions :: "int \<Rightarrow> int \<Rightarrow> (int \<times> int) list" where
  "neighborPositions row col =
     [(row - 1, col - 1), (row - 1, col), (row - 1, col + 1),
      (row, col - 1), (row, col + 1),
      (row + 1, col - 1), (row + 1, col), (row + 1, col + 1)]"

definition liveAt :: "Grid \<Rightarrow> int \<times> int \<Rightarrow> bool" where
  "liveAt g p = (inBounds g (fst p) (snd p) \<and> cell g (fst p) (snd p) > 0)"

text \<open>
  The value that the body of the loops of \<open>generateNextGenerationGrid\<close> leaves in
  a cell of \<open>newGrid\<close>: \<open>n\<close> is the neighbour count, \<open>age\<close> the cell of \<open>grid\<close>
  and \<open>old\<close> the cell of \<open>newGrid\<close> before the body runs.
\<close>

definition nextAge :: "int \<Rightarrow> int \<Rightarrow> int \<Rightarrow> int \<Rightarrow> int" where
  "nextAge kMaxAge n age old =
     (if n \<le> 1 \<or> n > 3 then 0
      else if n = 2 then (if age > 0 \<and> age < kMaxAge then old + 1 else old)
      else (if age < kMaxAge then old + 1 else old))"

text \<open>
  The live Moore neighbours of a position as the specification counts them: the
  surrounding positions inside the grid that hold a value above 0.
\<close>

definition liveNeighbors :: "Grid \<Rightarrow> int \<Rightarrow> int \<Rightarrow> (int \<times> int) set" where
  "liveNeighbors grid row col =
     {(y, x). (y, x) \<noteq> (row, col) \<and> \<bar>y - row\<bar> \<le> 1 \<and> \<bar>x - col\<bar> \<le> 1 \<and>
              inBounds grid y x \<and> cell grid y x > 0}"

text \<open>Small grids on which the theorems are instantiated.\<close>

definition crowdedGrid :: Grid where
  "crowdedGrid = \<lparr>rowCount = 3, columnCount = 3, elements = [[1, 1, 1], [1, 5, 1], [1, 1, 1]]\<rparr>"

definition cornerGrid :: Grid where
  "cornerGrid = \<lparr>rowCount = 3, columnCount = 3, elements = [[1, 1, 0], [1, 0, 0], [0, 0, 0]]\<rparr>"

definition mixedGrid :: Grid where
  "mixedGrid = \<lparr>rowCount = 3, columnCount = 3, elements = [[12, 1, 0], [1, 0, 1], [0, 0, 0]]\<rparr>"

definition loneGrid :: Grid where
  "loneGrid = \<lparr>rowCount = 1, columnCount = 1, elements = [[1]]\<rparr>"

text \<open>
  Two grids of the same sizes whose cells agree, position by position, on being
  above 0; and a grid without a negative cell.
\<close>

definition sameAliveness :: "Grid \<Rightarrow> Grid \<Rightarrow> bool" where
  "sameAliveness g1 g2 =
     (rowCount g1 = rowCount g2 \<and> columnCount g1 = columnCount g2 \<and>
      list_all2 (list_all2 (\<lambda>a b. (0 < a) = (0 < b))) (elements g1) (elements g2))"

definition noNegative :: "Grid \<Rightarrow> bool" where
  "noNegative g = list_all (\<lambda>age. 0 \<le> age) (cellsOf g)"

definition birthGrid :: Grid where
  "birthGrid = \<lparr>rowCount = 2, columnCount = 2, elements = [[0, 1], [1, 1]]\<rparr>"

definition stillLifeGrid :: Grid where
  "stillLifeGrid = \<lparr>rowCount = 2, columnCount = 2, elements = [[12, 12], [12, 12]]\<rparr>"

text \<open>Every cell of the grid lies in \<open>[0, kMaxAge]\<close>.\<close>

definition agesWithin :: "int \<Rightarrow> Grid \<Rightarrow> bool" where
  "agesWithin kMaxAge g = list_all (\<lambda>age. 0 \<le> age \<and> age \<le> kMaxAge) (cellsOf g)"

definition agedGrid :: Grid where
  "agedGrid = \<lparr>rowCount = 2, columnCount = 2, elements = [[0, 7], [12, 3]]\<rparr>"

text \<open>
  A generator for \<open>generateRandomGrid\<close> (it gives the lower and the upper bound in
  turn), a \<^verbatim>\<open>stringToInteger\<close> that knows two numerals, and a file system of one
  file.
\<close>

definition alternatingDraw :: "int \<Rightarrow> int \<Rightarrow> nat \<Rightarrow> int \<times> nat" where
  "alternatingDraw lo hi gen = (if even gen then lo else hi, gen + 1)"

definition digitToInteger :: "string \<Rightarrow> int option" where
  "digitToInteger line =
     (if line = ''2'' then Some 2 else if line = ''3'' then Some 3 else None)"

definition oneFile :: "string \<rightharpoonup> string" where
  "oneFile =
     [''glider.txt'' \<mapsto>
        ''# two rows'' @ [CHR 0x0A] @ ''2'' @ [CHR 0x0A] @ ''3'' @ [CHR 0x0A] @
        ''X-X'' @ [CHR 0x0A] @ ''-X-'' @ [CHR 0x0A]]"

section \<open>Lemmas\<close>

lemma upto_m1_1: "[-1..1] = [-1, 0, 1::int]"
  by (simp add: upto.simps)

lemma fold_count:
  "fold (\<lambda>x (count::int). if P x then count + 1 else count) xs c = c + int (length (filter P xs))"
  by (induction xs arbitrary: c) simp_all

lemma fold_fold_pairs:
  "fold (\<lambda>a. fold (f a) bs) as s = fold (\<lambda>p. f (fst p) (snd p)) (List.product as bs) s"
proof (induction as arbitrary: s)
  case Nil
  show ?case by simp
next
  case (Cons a as)
  have "fold (\<lambda>p. f (fst p) (snd p)) (map (Pair a) bs) s = fold (f a) bs s" for s
    by (induction bs arbitrary: s) simp_all
  with Cons show ?case by simp
qed

lemma countNeighborCell_offsets:
  "countNeighborCell g row col =
     int (length (filter (\<lambda>d. d \<noteq> (0, 0) \<and> liveAt g (row + fst d, col + snd d))
                    (List.product [-1, 0, 1] [-1, 0, 1])))"
proof -
  have body: "(\<lambda>p (count::int).
             if fst p = 0 \<and> snd p = 0 then count
             else (let y = row + fst p; x = col + snd p in
                   if inBounds g y x \<and> cell g y x > 0 then count + 1 else count))
      = (\<lambda>p count. if p \<noteq> (0, 0) \<and> liveAt g (row + fst p, col + snd p)
                              then count + 1 else count)"
    by (intro ext) (simp add: liveAt_def Let_def prod_eq_iff)
  have "countNeighborCell g row col =
      fold (\<lambda>p (count::int).
             if fst p = 0 \<and> snd p = 0 then count
             else (let y = row + fst p; x = col + snd p in
                   if inBounds g y x \<and> cell g y x > 0 then count + 1 else count))
        (List.product [-1, 0, 1] [-1, 0, 1]) 0"
    unfolding countNeighborCell_def upto_m1_1 fold_fold_pairs ..
  also have "\<dots> = 0 + int (length (filter (\<lambda>d. d \<noteq> (0, 0) \<and> liveAt g (row + fst d, col + snd d))
                    (List.product [-1, 0, 1] [-1, 0, 1])))"
    unfolding body by (rule fold_count)
  finally show ?thesis by simp
qed

lemma countNeighborCell_filter:
  "countNeighborCell g row col = int (length (filter (liveAt g) (neighborPositions row col)))"
proof -
  have pos: "neighborPositions row col =
      map (\<lambda>d. (row + fst d, col + snd d)) (filter (\<lambda>d. d \<noteq> (0, 0)) (List.product [-1, 0, 1] [-1, 0, 1]))"
    by (simp add: neighborPositions_def)
  have "filter (\<lambda>d. d \<noteq> (0, 0) \<and> liveAt g (row + fst d, col + snd d)) ds
      = filter (\<lambda>d. liveAt g (row + fst d, col + snd d)) (filter (\<lambda>d. d \<noteq> (0, 0)) ds)" for ds :: "(int \<times> int) list"
    by (simp add: conj_commute)
  then show ?thesis
    unfolding countNeighborCell_offsets pos filter_map
    by (simp only: length_map comp_def)
qed

lemma distinct_neighborPositions: "distinct (neighborPositions row col)"
  by (simp add: neighborPositions_def)

lemma set_neighborPositions:
  "set (neighborPositions row col) =
     {(y, x). (y, x) \<noteq> (row, col) \<and> \<bar>y - row\<bar> \<le> 1 \<and> \<bar>x - col\<bar> \<le> 1}"
proof -
  have "\<bar>d\<bar> \<le> 1 \<longleftrightarrow> d = -1 \<or> d = 0 \<or> d = 1" for d :: int
    by arith
  then have "\<bar>y - row\<bar> \<le> 1 \<longleftrightarrow> y = row - 1 \<or> y = row \<or> y = row + 1" for y row :: int
    by arith
  then show ?thesis
    unfolding neighborPositions_def by auto
qed

lemma countNeighborCell_card:
  "countNeighborCell g row col =
     int (card {(y, x). (y, x) \<noteq> (row, col) \<and> \<bar>y - row\<bar> \<le> 1 \<and> \<bar>x - col\<bar> \<le> 1 \<and>
                 inBounds g y x \<and> cell g y x > 0})"
proof -
  have "{(y, x). (y, x) \<noteq> (row, col) \<and> \<bar>y - row\<bar> \<le> 1 \<and> \<bar>x - col\<bar> \<le> 1 \<and>
                 inBounds g y x \<and> cell g y x > 0}
        = {p \<in> set (neighborPositions row col). liveAt g p}"
    unfolding set_neighborPositions liveAt_def by auto
  also have "\<dots> = set (filter (liveAt g) (neighborPositions row col))"
    by simp
  finally show ?thesis
    by (simp only: countNeighborCell_filter
          distinct_card [OF distinct_filter [OF distinct_neighborPositions]])
qed

lemma countNeighborCell_range:
  "0 \<le> countNeighborCell g row col \<and> countNeighborCell g row col \<le> 8"
proof -
  have "length (filter (liveAt g) (neighborPositions row col)) \<le> length (neighborPositions row col)"
    by (rule length_filter_le)
  then show ?thesis by (simp add: countNeighborCell_filter neighborPositions_def)
qed

lemma countNeighborCell_corner:
  assumes "row = 0 \<or> row = numRows g - 1" "col = 0 \<or> col = numCols g - 1"
  shows "countNeighborCell g row col \<le> 3"
proof -
  let ?inb = "\<lambda>p. inBounds g (fst p) (snd p)"
  have "filter (liveAt g) ps = filter (liveAt g) (filter ?inb ps)" for ps
    by (induction ps) (simp_all add: liveAt_def)
  then have "length (filter (liveAt g) (neighborPositions row col))
      \<le> length (filter ?inb (neighborPositions row col))"
    by (metis length_filter_le)
  moreover have "length (filter ?inb (neighborPositions row col)) \<le> 3"
    using assms by (auto simp: neighborPositions_def inBounds_def)
  ultimately show ?thesis
    by (simp only: countNeighborCell_filter)
qed

lemma setCell_dims [simp]:
  "rowCount (setCell g row col v) = rowCount g"
  "columnCount (setCell g row col v) = columnCount g"
  "numRows (setCell g row col v) = numRows g"
  "numCols (setCell g row col v) = numCols g"
  "inBounds (setCell g row col v) r c = inBounds g r c"
  by (simp_all add: setCell_def numRows_def numCols_def inBounds_def)

lemma wellFormed_nth:
  "wellFormed g \<longleftrightarrow>
     length (elements g) = rowCount g \<and> (\<forall>i < rowCount g. length (elements g ! i) = columnCount g)"
  by (auto simp: wellFormed_def list_all_length)

lemma wellFormed_setCell:
  assumes "wellFormed g"
  shows "wellFormed (setCell g row col v)"
proof -
  have "length ((elements g)[nat row := (elements g ! nat row)[nat col := v]] ! i) = columnCount g"
    if "i < rowCount g" for i
    using assms that by (cases "i = nat row") (simp_all add: wellFormed_nth)
  with assms show ?thesis
    by (simp add: wellFormed_nth setCell_def)
qed

lemma cell_setCell:
  assumes "wellFormed g" "inBounds g row col" "inBounds g r c"
  shows "cell (setCell g row col v) r c = (if r = row \<and> c = col then v else cell g r c)"
proof -
  from assms have "nat row < length (elements g)" "nat r < length (elements g)"
    "nat col < length (elements g ! nat row)" "nat c < length (elements g ! nat r)"
    by (auto simp: wellFormed_nth inBounds_def numRows_def numCols_def)
  moreover from assms have "nat r = nat row \<longleftrightarrow> r = row" "nat c = nat col \<longleftrightarrow> c = col"
    by (auto simp: inBounds_def)
  ultimately show ?thesis
    by (cases "r = row"; cases "c = col") (simp_all add: cell_def setCell_def)
qed

lemma setCell_same: "setCell g row col (cell g row col) = g"
  by (simp add: setCell_def cell_def)

lemma Grid_eqI:
  assumes "wellFormed g1" "wellFormed g2"
    and "rowCount g1 = rowCount g2" "columnCount g1 = columnCount g2"
    and "\<And>r c. inBounds g1 r c \<Longrightarrow> cell g1 r c = cell g2 r c"
  shows "g1 = g2"
proof -
  have "elements g1 = elements g2"
  proof (rule nth_equalityI)
    show "length (elements g1) = length (elements g2)"
      using assms by (simp add: wellFormed_nth)
  next
    fix i assume i: "i < length (elements g1)"
    show "elements g1 ! i = elements g2 ! i"
    proof (rule nth_equalityI)
      show "length (elements g1 ! i) = length (elements g2 ! i)"
        using assms i by (simp add: wellFormed_nth)
    next
      fix j assume j: "j < length (elements g1 ! i)"
      from i j assms(1) have "inBounds g1 (int i) (int j)"
        by (simp add: wellFormed_nth inBounds_def numRows_def numCols_def)
      from assms(5) [OF this] show "elements g1 ! i ! j = elements g2 ! i ! j"
        by (simp add: cell_def)
    qed
  qed
  with assms(3,4) show ?thesis by simp
qed

lemma newGridOf_props:
  "wellFormed (newGridOf rows cols)"
  "rowCount (newGridOf rows cols) = nat rows"
  "columnCount (newGridOf rows cols) = nat cols"
  by (simp_all add: newGridOf_def wellFormed_def list_all_length)

lemma fold_cols_setCell:
  assumes "wellFormed ng" "0 \<le> row" "row < numRows ng" "distinct cs"
    and "\<forall>c \<in> set cs. 0 \<le> c \<and> c < numCols ng"
  shows "wellFormed (fold (\<lambda>col ng. setCell ng row col (upd col (cell ng row col))) cs ng) \<and>
         rowCount (fold (\<lambda>col ng. setCell ng row col (upd col (cell ng row col))) cs ng) = rowCount ng \<and>
         columnCount (fold (\<lambda>col ng. setCell ng row col (upd col (cell ng row col))) cs ng) = columnCount ng \<and>
         (\<forall>r c. inBounds ng r c \<longrightarrow>
            cell (fold (\<lambda>col ng. setCell ng row col (upd col (cell ng row col))) cs ng) r c =
              (if r = row \<and> c \<in> set cs then upd c (cell ng row c) else cell ng r c))"
  using assms
proof (induction cs arbitrary: ng)
  case Nil
  then show ?case by simp
next
  case (Cons a cs)
  let ?ng1 = "setCell ng row a (upd a (cell ng row a))"
  have a: "inBounds ng row a"
    using Cons.prems by (simp add: inBounds_def)
  have wf1: "wellFormed ?ng1"
    using Cons.prems(1) by (rule wellFormed_setCell)
  have IH: "wellFormed (fold (\<lambda>col ng. setCell ng row col (upd col (cell ng row col))) cs ?ng1) \<and>
         rowCount (fold (\<lambda>col ng. setCell ng row col (upd col (cell ng row col))) cs ?ng1) = rowCount ?ng1 \<and>
         columnCount (fold (\<lambda>col ng. setCell ng row col (upd col (cell ng row col))) cs ?ng1) = columnCount ?ng1 \<and>
         (\<forall>r c. inBounds ?ng1 r c \<longrightarrow>
            cell (fold (\<lambda>col ng. setCell ng row col (upd col (cell ng row col))) cs ?ng1) r c =
              (if r = row \<and> c \<in> set cs then upd c (cell ?ng1 row c) else cell ?ng1 r c))"
    using Cons.prems by (intro Cons.IH wf1) simp_all
  have step: "cell ?ng1 r c = (if r = row \<and> c = a then upd a (cell ng row a) else cell ng r c)"
    if "inBounds ng r c" for r c
    using cell_setCell [OF Cons.prems(1) a that] .
  have "a \<notin> set cs" using Cons.prems(4) by simp
  with IH step show ?case
    by (auto simp: inBounds_def)
qed

lemma fold_rows_setCell:
  assumes "wellFormed ng" "distinct rs" "\<forall>r \<in> set rs. 0 \<le> r \<and> r < numRows ng"
    and "distinct cs" "\<forall>c \<in> set cs. 0 \<le> c \<and> c < numCols ng"
  shows "wellFormed (fold (\<lambda>row. fold (\<lambda>col ng. setCell ng row col (upd row col (cell ng row col))) cs) rs ng) \<and>
         rowCount (fold (\<lambda>row. fold (\<lambda>col ng. setCell ng row col (upd row col (cell ng row col))) cs) rs ng) = rowCount ng \<and>
         columnCount (fold (\<lambda>row. fold (\<lambda>col ng. setCell ng row col (upd row col (cell ng row col))) cs) rs ng) = columnCount ng \<and>
         (\<forall>r c. inBounds ng r c \<longrightarrow>
            cell (fold (\<lambda>row. fold (\<lambda>col ng. setCell ng row col (upd row col (cell ng row col))) cs) rs ng) r c =
              (if r \<in> set rs \<and> c \<in> set cs then upd r c (cell ng r c) else cell ng r c))"
  using assms
proof (induction rs arbitrary: ng)
  case Nil
  then show ?case by simp
next
  case (Cons a rs)
  let ?inner = "\<lambda>row. fold (\<lambda>col ng. setCell ng row col (upd row col (cell ng row col))) cs"
  let ?ng1 = "?inner a ng"
  have row1: "wellFormed ?ng1 \<and> rowCount ?ng1 = rowCount ng \<and> columnCount ?ng1 = columnCount ng \<and>
     (\<forall>r c. inBounds ng r c \<longrightarrow>
        cell ?ng1 r c = (if r = a \<and> c \<in> set cs then upd a c (cell ng a c) else cell ng r c))"
    using Cons.prems by (intro fold_cols_setCell) simp_all
  then have dims1: "numRows ?ng1 = numRows ng" "numCols ?ng1 = numCols ng"
    "\<And>r c. inBounds ?ng1 r c = inBounds ng r c"
    by (simp_all add: numRows_def numCols_def inBounds_def)
  have IH: "wellFormed (fold ?inner rs ?ng1) \<and>
         rowCount (fold ?inner rs ?ng1) = rowCount ?ng1 \<and>
         columnCount (fold ?inner rs ?ng1) = columnCount ?ng1 \<and>
         (\<forall>r c. inBounds ?ng1 r c \<longrightarrow>
            cell (fold ?inner rs ?ng1) r c =
              (if r \<in> set rs \<and> c \<in> set cs then upd r c (cell ?ng1 r c) else cell ?ng1 r c))"
    using Cons.prems row1 by (intro Cons.IH) (simp_all add: dims1)
  have "a \<notin> set rs" using Cons.prems(2) by simp
  with IH row1 show ?case
    by (auto simp: dims1)
qed

lemma fold_all_setCell:
  assumes "wellFormed ng"
  shows "wellFormed (fold (\<lambda>row. fold (\<lambda>col ng. setCell ng row col (upd row col (cell ng row col)))
                       [0..numCols ng - 1]) [0..numRows ng - 1] ng)" (is "wellFormed ?ng'")
    and "rowCount (fold (\<lambda>row. fold (\<lambda>col ng. setCell ng row col (upd row col (cell ng row col)))
                       [0..numCols ng - 1]) [0..numRows ng - 1] ng) = rowCount ng"
    and "columnCount (fold (\<lambda>row. fold (\<lambda>col ng. setCell ng row col (upd row col (cell ng row col)))
                       [0..numCols ng - 1]) [0..numRows ng - 1] ng) = columnCount ng"
    and "inBounds ng r c \<Longrightarrow>
         cell (fold (\<lambda>row. fold (\<lambda>col ng. setCell ng row col (upd row col (cell ng row col)))
                       [0..numCols ng - 1]) [0..numRows ng - 1] ng) r c = upd r c (cell ng r c)"
proof -
  have all: "wellFormed ?ng' \<and> rowCount ?ng' = rowCount ng \<and> columnCount ?ng' = columnCount ng \<and>
     (\<forall>r c. inBounds ng r c \<longrightarrow>
        cell ?ng' r c = (if r \<in> set [0..numRows ng - 1] \<and> c \<in> set [0..numCols ng - 1]
                         then upd r c (cell ng r c) else cell ng r c))"
    using assms by (intro fold_rows_setCell) simp_all
  from all show "wellFormed ?ng'" "rowCount ?ng' = rowCount ng" "columnCount ?ng' = columnCount ng"
    by blast+
  assume "inBounds ng r c"
  with all show "cell ?ng' r c = upd r c (cell ng r c)"
    by (simp add: inBounds_def)
qed

lemma cloneGrid_id:
  assumes "wellFormed grid"
  shows "cloneGrid grid = grid"
proof -
  let ?z = "newGridOf (numRows grid) (numCols grid)"
  have z: "wellFormed ?z" "rowCount ?z = rowCount grid" "columnCount ?z = columnCount grid"
    by (simp_all add: newGridOf_props numRows_def numCols_def)
  then have zd: "numRows ?z = numRows grid" "numCols ?z = numCols grid"
    "\<And>r c. inBounds ?z r c = inBounds grid r c"
    by (simp_all add: numRows_def numCols_def inBounds_def)
  note F = fold_all_setCell [OF z(1), where upd = "\<lambda>r c _. cell grid r c"]
  have clone: "cloneGrid grid =
     fold (\<lambda>row. fold (\<lambda>col ng. setCell ng row col (cell grid row col))
                       [0..numCols ?z - 1]) [0..numRows ?z - 1] ?z"
    by (simp only: cloneGrid_def zd)
  show ?thesis
  proof (rule Grid_eqI)
    show "wellFormed (cloneGrid grid)"
      using F(1) by (simp only: clone)
    show "wellFormed grid" by fact
    show rows: "rowCount (cloneGrid grid) = rowCount grid"
      using F(2) z(2) by (simp only: clone)
    show cols: "columnCount (cloneGrid grid) = columnCount grid"
      using F(3) z(3) by (simp only: clone)
    fix r c assume "inBounds (cloneGrid grid) r c"
    with rows cols have "inBounds grid r c"
      by (simp add: inBounds_def numRows_def numCols_def)
    then have "inBounds ?z r c"
      by (simp only: zd)
    from F(4) [OF this] show "cell (cloneGrid grid) r c = cell grid r c"
      by (simp only: clone)
  qed
qed

lemma nextCell_setCell:
  "nextCell kMaxAge row col (grid, newGrid) =
     (grid, setCell newGrid row col
              (nextAge kMaxAge (countNeighborCell grid row col) (cell grid row col)
                 (cell newGrid row col)))"
  by (simp add: nextAge_def Let_def setCell_same)

lemma fold_nextCell_cols:
  "fold (nextCell kMaxAge row) cs (grid, newGrid) =
     (grid, fold (\<lambda>col ng. setCell ng row col
                   (nextAge kMaxAge (countNeighborCell grid row col) (cell grid row col)
                      (cell ng row col))) cs newGrid)"
  by (induction cs arbitrary: newGrid) (simp_all only: fold_simps nextCell_setCell)

lemma fold_nextCell_rows:
  "fold (\<lambda>row. fold (nextCell kMaxAge row) cs) rs (grid, newGrid) =
     (grid, fold (\<lambda>row. fold (\<lambda>col ng. setCell ng row col
                   (nextAge kMaxAge (countNeighborCell grid row col) (cell grid row col)
                      (cell ng row col))) cs) rs newGrid)"
  by (induction rs arbitrary: newGrid) (simp_all only: fold_simps fold_nextCell_cols)

lemma generateNextGenerationGrid_unfold:
  "generateNextGenerationGrid kMaxAge grid =
     (fold (\<lambda>row. fold (\<lambda>col ng. setCell ng row col
                   (nextAge kMaxAge (countNeighborCell grid row col) (cell grid row col)
                      (cell ng row col))) [0..numCols grid - 1]) [0..numRows grid - 1]
        (cloneGrid grid), grid)"
  by (simp add: generateNextGenerationGrid_def fold_nextCell_rows)

lemma generateNextGenerationGrid_input: "snd (generateNextGenerationGrid kMaxAge grid) = grid"
  by (simp add: generateNextGenerationGrid_unfold)

lemma generateNextGenerationGrid_props:
  assumes "wellFormed grid"
  shows "wellFormed (fst (generateNextGenerationGrid kMaxAge grid))"
    and "rowCount (fst (generateNextGenerationGrid kMaxAge grid)) = rowCount grid"
    and "columnCount (fst (generateNextGenerationGrid kMaxAge grid)) = columnCount grid"
    and "inBounds grid r c \<Longrightarrow>
         cell (fst (generateNextGenerationGrid kMaxAge grid)) r c =
           nextAge kMaxAge (countNeighborCell grid r c) (cell grid r c) (cell grid r c)"
  unfolding generateNextGenerationGrid_unfold cloneGrid_id [OF assms] fst_conv
  by (rule fold_all_setCell [OF assms])+

lemma countNeighborCell_liveNeighbors:
  "countNeighborCell grid row col = int (card (liveNeighbors grid row col))"
  unfolding liveNeighbors_def by (rule countNeighborCell_card)

lemma card_liveNeighbors: "card (liveNeighbors grid row col) = nat (countNeighborCell grid row col)"
  by (simp add: countNeighborCell_liveNeighbors)

lemma set_cellsOf:
  assumes "wellFormed g"
  shows "set (cellsOf g) = {cell g r c | r c. inBounds g r c}"
proof (intro set_eqI iffI)
  fix v assume "v \<in> set (cellsOf g)"
  then obtain xs where xs: "xs \<in> set (elements g)" "v \<in> set xs"
    by (auto simp: cellsOf_def)
  then obtain i j where ij: "i < length (elements g)" "xs = elements g ! i" "j < length xs" "v = xs ! j"
    by (auto simp: in_set_conv_nth)
  with assms have "inBounds g (int i) (int j)" "cell g (int i) (int j) = v"
    by (simp_all add: wellFormed_nth inBounds_def numRows_def numCols_def cell_def)
  then show "v \<in> {cell g r c | r c. inBounds g r c}" by blast
next
  fix v assume "v \<in> {cell g r c | r c. inBounds g r c}"
  then obtain r c where rc: "inBounds g r c" "v = cell g r c" by blast
  with assms have "nat r < length (elements g)" "nat c < length (elements g ! nat r)"
    by (auto simp: wellFormed_nth inBounds_def numRows_def numCols_def)
  then have "elements g ! nat r \<in> set (elements g)" "v \<in> set (elements g ! nat r)"
    using rc(2) by (simp_all add: cell_def)
  then show "v \<in> set (cellsOf g)"
    by (auto simp: cellsOf_def)
qed

lemma list_ex_cellsOf:
  "wellFormed g \<Longrightarrow> list_ex P (cellsOf g) \<longleftrightarrow> (\<exists>r c. inBounds g r c \<and> P (cell g r c))"
  by (auto simp: list_ex_iff set_cellsOf)

lemma list_all_cellsOf:
  "wellFormed g \<Longrightarrow> list_all P (cellsOf g) \<longleftrightarrow> (\<forall>r c. inBounds g r c \<longrightarrow> P (cell g r c))"
  by (auto simp: list_all_iff set_cellsOf)

lemma Grid_eq_iff:
  assumes "wellFormed g1" "wellFormed g2"
  shows "g1 = g2 \<longleftrightarrow>
           numRows g2 = numRows g1 \<and> numCols g2 = numCols g1 \<and>
           (\<forall>r c. inBounds g2 r c \<longrightarrow> cell g2 r c = cell g1 r c)"
proof
  assume "g1 = g2" then show "numRows g2 = numRows g1 \<and> numCols g2 = numCols g1 \<and>
           (\<forall>r c. inBounds g2 r c \<longrightarrow> cell g2 r c = cell g1 r c)" by simp
next
  assume r: "numRows g2 = numRows g1 \<and> numCols g2 = numCols g1 \<and>
           (\<forall>r c. inBounds g2 r c \<longrightarrow> cell g2 r c = cell g1 r c)"
  then have "g2 = g1"
    by (intro Grid_eqI assms) (simp_all add: numRows_def numCols_def)
  then show "g1 = g2" ..
qed

lemma generateNextGenerationGrid_pair:
  "generateNextGenerationGrid kMaxAge grid = (fst (generateNextGenerationGrid kMaxAge grid), grid)"
  by (simp add: prod_eq_iff generateNextGenerationGrid_input)

lemma advanceGrid_eq:
  "advanceGrid kMaxAge disp grid =
     (\<not> isStableGrid kMaxAge grid (fst (generateNextGenerationGrid kMaxAge grid)),
      drawGrid disp (fst (generateNextGenerationGrid kMaxAge grid)),
      fst (generateNextGenerationGrid kMaxAge grid))"
  unfolding advanceGrid_def
  by (subst generateNextGenerationGrid_pair) (simp add: Let_def)

lemma sameAliveness_iff:
  assumes "wellFormed g1" "wellFormed g2"
  shows "sameAliveness g1 g2 \<longleftrightarrow>
           rowCount g1 = rowCount g2 \<and> columnCount g1 = columnCount g2 \<and>
           (\<forall>r c. inBounds g1 r c \<longrightarrow> (0 < cell g1 r c) = (0 < cell g2 r c))"
proof (cases "rowCount g1 = rowCount g2 \<and> columnCount g1 = columnCount g2")
  case False
  then show ?thesis by (auto simp: sameAliveness_def)
next
  case True
  have len: "length (elements g1) = rowCount g1" "length (elements g2) = rowCount g1"
    "\<And>i. i < rowCount g1 \<Longrightarrow> length (elements g1 ! i) = columnCount g1"
    "\<And>i. i < rowCount g1 \<Longrightarrow> length (elements g2 ! i) = columnCount g1"
    using assms True by (simp_all add: wellFormed_nth)
  have "list_all2 (list_all2 (\<lambda>a b. (0 < a) = (0 < b))) (elements g1) (elements g2) \<longleftrightarrow>
        (\<forall>i < rowCount g1. \<forall>j < columnCount g1.
           (0 < elements g1 ! i ! j) = (0 < elements g2 ! i ! j))"
    by (simp add: list_all2_conv_all_nth len)
  also have "\<dots> \<longleftrightarrow> (\<forall>r c. inBounds g1 r c \<longrightarrow> (0 < cell g1 r c) = (0 < cell g2 r c))"
  proof (rule iffI)
    assume h: "\<forall>i < rowCount g1. \<forall>j < columnCount g1.
           (0 < elements g1 ! i ! j) = (0 < elements g2 ! i ! j)"
    have "(0 < cell g1 r c) = (0 < cell g2 r c)" if "inBounds g1 r c" for r c
    proof -
      from that have "nat r < rowCount g1" "nat c < columnCount g1"
        by (auto simp: inBounds_def numRows_def numCols_def)
      with h show ?thesis
        by (simp add: cell_def)
    qed
    then show "\<forall>r c. inBounds g1 r c \<longrightarrow> (0 < cell g1 r c) = (0 < cell g2 r c)"
      by blast
  next
    assume h: "\<forall>r c. inBounds g1 r c \<longrightarrow> (0 < cell g1 r c) = (0 < cell g2 r c)"
    have "(0 < elements g1 ! i ! j) = (0 < elements g2 ! i ! j)"
      if "i < rowCount g1" "j < columnCount g1" for i j
    proof -
      from that have "inBounds g1 (int i) (int j)"
        by (simp add: inBounds_def numRows_def numCols_def)
      with h have "(0 < cell g1 (int i) (int j)) = (0 < cell g2 (int i) (int j))" by blast
      then show ?thesis
        by (simp add: cell_def)
    qed
    then show "\<forall>i < rowCount g1. \<forall>j < columnCount g1.
           (0 < elements g1 ! i ! j) = (0 < elements g2 ! i ! j)"
      by blast
  qed
  finally show ?thesis using True by (simp add: sameAliveness_def)
qed

lemma countNeighborCell_sameAliveness:
  assumes "wellFormed g1" "wellFormed g2" "sameAliveness g1 g2"
  shows "countNeighborCell g1 row col = countNeighborCell g2 row col"
proof -
  from assms have s: "rowCount g1 = rowCount g2" "columnCount g1 = columnCount g2"
    "\<And>r c. inBounds g1 r c \<Longrightarrow> (0 < cell g1 r c) = (0 < cell g2 r c)"
    by (simp_all add: sameAliveness_iff)
  then have "inBounds g1 r c = inBounds g2 r c" for r c
    by (simp add: inBounds_def numRows_def numCols_def)
  with s(3) have "liveAt g1 p = liveAt g2 p" for p
    by (auto simp: liveAt_def)
  then have "liveAt g1 = liveAt g2" by (rule ext)
  then show ?thesis by (simp add: countNeighborCell_filter)
qed

lemma nextAge_alive:
  assumes "0 \<le> a" "0 \<le> b" "(0 < a) = (0 < b)"
  shows "(0 < nextAge kMaxAge n a a) = (0 < nextAge kMaxAge n b b)"
  using assms by (auto simp: nextAge_def)

lemma list_all_cellsOf_setCell:
  assumes "list_all P (cellsOf g)" "P v"
  shows "list_all P (cellsOf (setCell g row col v))"
proof (cases "nat row < length (elements g)")
  case False
  then show ?thesis using assms(1) by (simp add: setCell_def cellsOf_def list_update_beyond)
next
  case True
  have old: "P x" if "xs \<in> set (elements g)" "x \<in> set xs" for xs x
    using assms(1) that by (auto simp: cellsOf_def list_all_iff)
  have "P x" if xs: "xs \<in> set ((elements g)[nat row := (elements g ! nat row)[nat col := v]])"
    and x: "x \<in> set xs" for xs x
  proof -
    from xs have "xs = (elements g ! nat row)[nat col := v] \<or> xs \<in> set (elements g)"
      using set_update_subset_insert [of "elements g" "nat row"] by auto
    then show ?thesis
    proof
      assume "xs = (elements g ! nat row)[nat col := v]"
      with x have "x = v \<or> x \<in> set (elements g ! nat row)"
        using set_update_subset_insert [of "elements g ! nat row" "nat col"] by auto
      moreover from True have "elements g ! nat row \<in> set (elements g)" by simp
      ultimately show ?thesis using old assms(2) by blast
    next
      assume "xs \<in> set (elements g)"
      with x old show ?thesis by blast
    qed
  qed
  then show ?thesis
    by (auto simp: cellsOf_def list_all_iff setCell_def)
qed

lemma list_all_cellsOf_newGridOf: "P 0 \<Longrightarrow> list_all P (cellsOf (newGridOf rows cols))"
  by (auto simp: cellsOf_def list_all_iff newGridOf_def)

lemma fold_keeps:
  assumes "\<And>x s. I s \<Longrightarrow> I (f x s)" and "I s"
  shows "I (fold f xs s)"
  using assms(2) by (induction xs arbitrary: s) (simp_all add: assms(1))

lemma nextAge_within:
  "0 \<le> a \<Longrightarrow> a \<le> kMaxAge \<Longrightarrow> 0 \<le> nextAge kMaxAge n a a \<and> nextAge kMaxAge n a a \<le> kMaxAge"
  by (auto simp: nextAge_def)

lemma generateNextGenerationGrid_agesWithin:
  assumes "wellFormed grid" "agesWithin kMaxAge grid"
  shows "agesWithin kMaxAge (fst (generateNextGenerationGrid kMaxAge grid))"
proof -
  note p = generateNextGenerationGrid_props [OF assms(1), where kMaxAge = kMaxAge]
  from assms have old: "0 \<le> cell grid r c \<and> cell grid r c \<le> kMaxAge" if "inBounds grid r c" for r c
    using that by (simp add: agesWithin_def list_all_cellsOf)
  have "0 \<le> cell (fst (generateNextGenerationGrid kMaxAge grid)) r c \<and>
        cell (fst (generateNextGenerationGrid kMaxAge grid)) r c \<le> kMaxAge"
    if "inBounds (fst (generateNextGenerationGrid kMaxAge grid)) r c" for r c
  proof -
    from that have i: "inBounds grid r c"
      by (simp add: inBounds_def numRows_def numCols_def p(2,3))
    from old [OF i] show ?thesis
      unfolding p(4) [OF i] by (simp add: nextAge_within)
  qed
  then show ?thesis
    by (simp add: agesWithin_def list_all_cellsOf [OF p(1)])
qed

lemma generateRandomGrid_cells:
  assumes draw: "\<forall>lo hi gen. lo \<le> hi \<longrightarrow> lo \<le> fst (draw lo hi gen) \<and> fst (draw lo hi gen) \<le> hi"
    and k: "1 \<le> kMaxAge"
  shows "wellFormed (generateRandomGrid kMaxAge draw gen) \<and>
         list_all (\<lambda>age. age = 0 \<or> 1 \<le> age \<and> age \<le> kMaxAge)
           (cellsOf (generateRandomGrid kMaxAge draw gen))"
proof -
  let ?P = "\<lambda>age. age = 0 \<or> 1 \<le> age \<and> age \<le> kMaxAge"
  let ?I = "\<lambda>s :: Grid \<times> 'a. wellFormed (fst s) \<and> list_all ?P (cellsOf (fst s))"
  let ?body = "\<lambda>row col (s :: Grid \<times> 'a).
                  if fst (draw 0 1 (snd s)) = 1
                  then (setCell (fst s) row col (fst (draw 1 kMaxAge (snd (draw 0 1 (snd s))))),
                        snd (draw 1 kMaxAge (snd (draw 0 1 (snd s)))))
                  else (setCell (fst s) row col Empty, snd (draw 0 1 (snd s)))"
  have step: "?I (?body row col s)" if "?I s" for row col s
  proof -
    from draw k have "1 \<le> fst (draw 1 kMaxAge g) \<and> fst (draw 1 kMaxAge g) \<le> kMaxAge" for g
      by blast
    then have "?P (fst (draw 1 kMaxAge g))" for g by blast
    with that show ?thesis
      by (auto simp: Empty_def intro!: wellFormed_setCell list_all_cellsOf_setCell)
  qed
  have rowstep: "?I (fold (?body row) cs s)" if "?I s" for row cs s
    using step that by (rule fold_keeps)
  have all: "?I (fold (\<lambda>row. fold (?body row) cs) rs s)" if "?I s" for cs rs s
    using rowstep that by (rule fold_keeps)
  have init: "?I (newGridOf h w, g)" for h w g
    by (simp add: newGridOf_props list_all_cellsOf_newGridOf)
  show ?thesis
    unfolding generateRandomGrid_def Let_def split_beta
    by (rule all [OF init])
qed

lemma Occupied_Empty_bit:
  "(if ch = CHR ''X'' then Occupied else Empty) = 0 \<or> (if ch = CHR ''X'' then Occupied else Empty) = 1"
  by (simp add: Occupied_def Empty_def)

lemma readGridFromFile_row_cells:
  assumes "readGridFromFile_row line row cols grid = Inr g"
    and "wellFormed grid" "list_all (\<lambda>age. age = 0 \<or> age = 1) (cellsOf grid)"
  shows "wellFormed g \<and> list_all (\<lambda>age. age = 0 \<or> age = 1) (cellsOf g)"
  using assms
proof (induction cols arbitrary: grid)
  case Nil
  then show ?case by simp
next
  case (Cons col cols)
  from Cons.prems(1) obtain ch where ch: "charAt line col = Some ch"
    and rest: "readGridFromFile_row line row cols
                 (setCell grid row col (if ch = CHR ''X'' then Occupied else Empty)) = Inr g"
    by (auto split: option.splits)
  from rest show ?case
  proof (rule Cons.IH)
    show "wellFormed (setCell grid row col (if ch = CHR ''X'' then Occupied else Empty))"
      using Cons.prems(2) by (rule wellFormed_setCell)
    show "list_all (\<lambda>age. age = 0 \<or> age = 1)
            (cellsOf (setCell grid row col (if ch = CHR ''X'' then Occupied else Empty)))"
      using Cons.prems(3) Occupied_Empty_bit by (rule list_all_cellsOf_setCell)
  qed
qed

lemma readGridFromFile_rows_cells:
  assumes "readGridFromFile_rows stream ln rows grid = Inr g"
    and "wellFormed grid" "list_all (\<lambda>age. age = 0 \<or> age = 1) (cellsOf grid)"
  shows "wellFormed g \<and> list_all (\<lambda>age. age = 0 \<or> age = 1) (cellsOf g)"
  using assms
proof (induction rows arbitrary: stream ln grid)
  case Nil
  then show ?case by simp
next
  case (Cons row rows)
  obtain stream' ln' where gl: "getline stream ln = (stream', ln')"
    by (cases "getline stream ln")
  with Cons.prems(1) obtain grid' where
    row: "readGridFromFile_row ln' row [0..numCols grid - 1] grid = Inr grid'"
    and rest: "readGridFromFile_rows stream' ln' rows grid' = Inr g"
    by (auto split: sum.splits)
  from readGridFromFile_row_cells [OF row Cons.prems(2,3)] rest show ?case
    by (intro Cons.IH [of stream' ln' grid']) simp_all
qed

lemma readGridFromFile_cells:
  assumes "readGridFromFile files stringToInteger filename = Some (Inr g)"
  shows "wellFormed g \<and> list_all (\<lambda>age. age = 0 \<or> age = 1) (cellsOf g)"
proof -
  from assms obtain stream ln height width where
    "readGridFromFile_rows stream ln [0..numRows (newGridOf height width) - 1]
       (newGridOf height width) = Inr g"
    by (auto simp: readGridFromFile_def Let_def split: option.splits sum.splits if_splits)
  then show ?thesis
    by (rule readGridFromFile_rows_cells)
       (simp_all add: newGridOf_props list_all_cellsOf_newGridOf)
qed

lemma list_all_weaken: "list_all P xs \<Longrightarrow> (\<And>x. P x \<Longrightarrow> Q x) \<Longrightarrow> list_all Q xs"
  by (auto simp: list_all_iff)

lemma liveNeighbor_bound:
  assumes "wellFormed grid" "agesWithin kMaxAge grid" "card (liveNeighbors grid row col) = 3"
  shows "1 \<le> kMaxAge"
proof -
  from assms(3) have "liveNeighbors grid row col \<noteq> {}" by auto
  then obtain y x where "inBounds grid y x" "0 < cell grid y x"
    by (auto simp: liveNeighbors_def)
  moreover from this assms(1,2) have "cell grid y x \<le> kMaxAge"
    by (simp add: agesWithin_def list_all_cellsOf)
  ultimately show ?thesis by linarith
qed

lemma generateNextGenerationGrid_life_pair:
  "generateNextGenerationGrid_life kMaxAge grid =
     (fst (generateNextGenerationGrid_life kMaxAge grid), grid)"
  by (simp add: generateNextGenerationGrid_life_def Let_def)

lemma advanceGrid_life_eq:
  "advanceGrid_life kMaxAge disp grid =
     (\<not> isStableGrid_life kMaxAge grid (fst (generateNextGenerationGrid_life kMaxAge grid)),
      drawGrid disp (fst (generateNextGenerationGrid_life kMaxAge grid)),
      fst (generateNextGenerationGrid_life kMaxAge grid))"
  unfolding advanceGrid_life_def
  by (subst generateNextGenerationGrid_life_pair) (simp add: Let_def)

section \<open>The claims\<close>

text \<open>
  C3. For every grid and position, \<open>countNeighborCell\<close> returns the number of the
  surrounding Moore positions (at most 8) that are in bounds and hold a value
  above 0. Positions outside the grid add nothing, there is no wrap-around, and
  a cell at a corner of the grid reports at most 3.
\<close>

theorem C3_countNeighborCell:
  "countNeighborCell grid row col = int (card (liveNeighbors grid row col)) \<and>
   card (liveNeighbors grid row col) \<le> 8 \<and>
   ((row = 0 \<or> row = numRows grid - 1) \<and> (col = 0 \<or> col = numCols grid - 1) \<longrightarrow>
      countNeighborCell grid row col \<le> 3)"
  using countNeighborCell_range [of grid row col] countNeighborCell_corner [of row grid col]
  by (simp add: countNeighborCell_liveNeighbors)

text \<open>At the upper left corner of a 3 by 3 grid of live cells the count is 3.\<close>

theorem C3_countNeighborCell_witness:
  "(0 = (0::int) \<or> 0 = numRows crowdedGrid - 1) \<and> (0 = (0::int) \<or> 0 = numCols crowdedGrid - 1) \<and>
   countNeighborCell crowdedGrid 0 0 = 3 \<and> card (liveNeighbors crowdedGrid 0 0) = 3"
proof -
  have "countNeighborCell crowdedGrid 0 0 = 3"
    by code_simp
  with C3_countNeighborCell [of crowdedGrid 0 0] show ?thesis
    by simp
qed

text \<open>
  C1. For every grid and every position in it: when the number of live Moore
  neighbours is 0, 1 or at least 4, the cell is 0 in the grid that
  \<open>generateNextGenerationGrid\<close> returns, whatever its age was.
\<close>

theorem C1_lonely_or_crowded_dies:
  assumes "wellFormed grid" and "inBounds grid row col"
    and "card (liveNeighbors grid row col) \<le> 1 \<or> card (liveNeighbors grid row col) \<ge> 4"
  shows "cell (fst (generateNextGenerationGrid kMaxAge grid)) row col = 0"
proof -
  from assms(3) have "countNeighborCell grid row col \<le> 1 \<or> countNeighborCell grid row col > 3"
    by (auto simp: countNeighborCell_liveNeighbors)
  then show ?thesis
    by (simp add: generateNextGenerationGrid_props(4) [OF assms(1,2)] nextAge_def)
qed

text \<open>
  The centre of a full 3 by 3 grid, of age 5 with 8 live neighbours, dies; so
  does the cell of age 1 at (1, 2) of \<open>mixedGrid\<close>, which has 1 live neighbour.
\<close>

theorem C1_lonely_or_crowded_dies_witness:
  "wellFormed crowdedGrid \<and> inBounds crowdedGrid 1 1 \<and> cell crowdedGrid 1 1 = 5 \<and>
   card (liveNeighbors crowdedGrid 1 1) = 8 \<and>
   cell (fst (generateNextGenerationGrid 12 crowdedGrid)) 1 1 = 0 \<and>
   wellFormed mixedGrid \<and> inBounds mixedGrid 1 2 \<and> cell mixedGrid 1 2 = 1 \<and>
   card (liveNeighbors mixedGrid 1 2) = 1 \<and>
   cell (fst (generateNextGenerationGrid 12 mixedGrid)) 1 2 = 0"
proof -
  have wf: "wellFormed crowdedGrid" "wellFormed mixedGrid" by code_simp+
  have inb: "inBounds crowdedGrid 1 1" "inBounds mixedGrid 1 2" by code_simp+
  have "countNeighborCell crowdedGrid 1 1 = 8" "countNeighborCell mixedGrid 1 2 = 1"
    by code_simp+
  then have n: "card (liveNeighbors crowdedGrid 1 1) = 8" "card (liveNeighbors mixedGrid 1 2) = 1"
    by (simp_all add: card_liveNeighbors)
  have a: "cell crowdedGrid 1 1 = 5" "cell mixedGrid 1 2 = 1" by code_simp+
  from C1_lonely_or_crowded_dies [OF wf(1) inb(1), where kMaxAge = 12]
    C1_lonely_or_crowded_dies [OF wf(2) inb(2), where kMaxAge = 12] n wf inb a
  show ?thesis by simp
qed

text \<open>
  C2. For every grid and every position in it. With exactly 2 live neighbours
  the state of the cell is kept: a live cell of age \<open>a < kMaxAge\<close> becomes \<open>a + 1\<close>,
  a cell at \<open>kMaxAge\<close> stays at \<open>kMaxAge\<close> and a dead cell stays 0. With exactly
  3 live neighbours, on a grid of the data model (every cell an age in
  \<open>[0, kMaxAge]\<close>, which is what the program passes to the function), the cell is
  alive in the output: a dead cell becomes 1 and a live cell's age becomes
  \<open>a + 1\<close>, capped at \<open>kMaxAge\<close>.
\<close>

theorem C2_survival_and_birth:
  assumes "wellFormed grid" and "inBounds grid row col"
  shows "(card (liveNeighbors grid row col) = 2 \<longrightarrow>
            (0 < cell grid row col \<and> cell grid row col < kMaxAge \<longrightarrow>
               cell (fst (generateNextGenerationGrid kMaxAge grid)) row col = cell grid row col + 1) \<and>
            (cell grid row col = kMaxAge \<longrightarrow>
               cell (fst (generateNextGenerationGrid kMaxAge grid)) row col = kMaxAge) \<and>
            (cell grid row col = 0 \<longrightarrow>
               cell (fst (generateNextGenerationGrid kMaxAge grid)) row col = 0)) \<and>
         (card (liveNeighbors grid row col) = 3 \<and> agesWithin kMaxAge grid \<longrightarrow>
            0 < cell (fst (generateNextGenerationGrid kMaxAge grid)) row col \<and>
            (cell grid row col = 0 \<longrightarrow>
               cell (fst (generateNextGenerationGrid kMaxAge grid)) row col = 1) \<and>
            (0 < cell grid row col \<longrightarrow>
               cell (fst (generateNextGenerationGrid kMaxAge grid)) row col
                 = min (cell grid row col + 1) kMaxAge))"
proof -
  have n: "countNeighborCell grid row col = int (card (liveNeighbors grid row col))"
    by (rule countNeighborCell_liveNeighbors)
  have out: "cell (fst (generateNextGenerationGrid kMaxAge grid)) row col =
      nextAge kMaxAge (int (card (liveNeighbors grid row col))) (cell grid row col) (cell grid row col)"
    by (simp only: generateNextGenerationGrid_props(4) [OF assms(1,2)] n)
  have two: "card (liveNeighbors grid row col) = 2 \<longrightarrow>
            (0 < cell grid row col \<and> cell grid row col < kMaxAge \<longrightarrow>
               cell (fst (generateNextGenerationGrid kMaxAge grid)) row col = cell grid row col + 1) \<and>
            (cell grid row col = kMaxAge \<longrightarrow>
               cell (fst (generateNextGenerationGrid kMaxAge grid)) row col = kMaxAge) \<and>
            (cell grid row col = 0 \<longrightarrow>
               cell (fst (generateNextGenerationGrid kMaxAge grid)) row col = 0)"
    unfolding out by (auto simp: nextAge_def)
  have three: "0 < cell (fst (generateNextGenerationGrid kMaxAge grid)) row col \<and>
            (cell grid row col = 0 \<longrightarrow>
               cell (fst (generateNextGenerationGrid kMaxAge grid)) row col = 1) \<and>
            (0 < cell grid row col \<longrightarrow>
               cell (fst (generateNextGenerationGrid kMaxAge grid)) row col
                 = min (cell grid row col + 1) kMaxAge)"
    if c: "card (liveNeighbors grid row col) = 3" and w: "agesWithin kMaxAge grid"
  proof -
    from liveNeighbor_bound [OF assms(1) w c] have k: "1 \<le> kMaxAge" .
    from assms w have a: "0 \<le> cell grid row col" "cell grid row col \<le> kMaxAge"
      by (simp_all add: agesWithin_def list_all_cellsOf)
    show ?thesis
      unfolding out c using k a by (auto simp: nextAge_def)
  qed
  from two three show ?thesis by blast
qed

text \<open>
  With \<open>kMaxAge = 12\<close>. In \<open>mixedGrid\<close>, with 2 live neighbours each: the cell of
  age 12 at (0, 0) stays at 12, the cell of age 1 at (1, 0) becomes 2, the dead
  cell at (0, 2) stays dead. With 3 live neighbours each: the cell of age 1 at
  (0, 1) of \<open>mixedGrid\<close> becomes 2, the dead centre of \<open>cornerGrid\<close> is born with
  age 1, and the cell of age 12 at (0, 0) of \<open>stillLifeGrid\<close> stays at 12.
\<close>

theorem C2_survival_and_birth_witness:
  "wellFormed mixedGrid \<and> wellFormed cornerGrid \<and> wellFormed stillLifeGrid \<and>
   agesWithin 12 mixedGrid \<and> agesWithin 12 cornerGrid \<and> agesWithin 12 stillLifeGrid \<and>
   inBounds mixedGrid 0 0 \<and> card (liveNeighbors mixedGrid 0 0) = 2 \<and> cell mixedGrid 0 0 = 12 \<and>
   cell (fst (generateNextGenerationGrid 12 mixedGrid)) 0 0 = 12 \<and>
   inBounds mixedGrid 1 0 \<and> card (liveNeighbors mixedGrid 1 0) = 2 \<and> cell mixedGrid 1 0 = 1 \<and>
   cell (fst (generateNextGenerationGrid 12 mixedGrid)) 1 0 = 2 \<and>
   inBounds mixedGrid 0 2 \<and> card (liveNeighbors mixedGrid 0 2) = 2 \<and> cell mixedGrid 0 2 = 0 \<and>
   cell (fst (generateNextGenerationGrid 12 mixedGrid)) 0 2 = 0 \<and>
   inBounds mixedGrid 0 1 \<and> card (liveNeighbors mixedGrid 0 1) = 3 \<and> cell mixedGrid 0 1 = 1 \<and>
   cell (fst (generateNextGenerationGrid 12 mixedGrid)) 0 1 = 2 \<and>
   inBounds cornerGrid 1 1 \<and> card (liveNeighbors cornerGrid 1 1) = 3 \<and> cell cornerGrid 1 1 = 0 \<and>
   cell (fst (generateNextGenerationGrid 12 cornerGrid)) 1 1 = 1 \<and>
   inBounds stillLifeGrid 0 0 \<and> card (liveNeighbors stillLifeGrid 0 0) = 3 \<and>
   cell stillLifeGrid 0 0 = 12 \<and>
   cell (fst (generateNextGenerationGrid 12 stillLifeGrid)) 0 0 = 12"
proof -
  have wf: "wellFormed mixedGrid" "wellFormed cornerGrid" "wellFormed stillLifeGrid"
    by code_simp+
  have i: "inBounds mixedGrid 0 0" "inBounds mixedGrid 1 0" "inBounds mixedGrid 0 2"
    "inBounds mixedGrid 0 1" "inBounds cornerGrid 1 1" "inBounds stillLifeGrid 0 0"
    by code_simp+
  have "countNeighborCell mixedGrid 0 0 = 2" "countNeighborCell mixedGrid 1 0 = 2"
    "countNeighborCell mixedGrid 0 2 = 2" "countNeighborCell mixedGrid 0 1 = 3"
    "countNeighborCell cornerGrid 1 1 = 3" "countNeighborCell stillLifeGrid 0 0 = 3"
    by code_simp+
  then have n: "card (liveNeighbors mixedGrid 0 0) = 2" "card (liveNeighbors mixedGrid 1 0) = 2"
    "card (liveNeighbors mixedGrid 0 2) = 2" "card (liveNeighbors mixedGrid 0 1) = 3"
    "card (liveNeighbors cornerGrid 1 1) = 3" "card (liveNeighbors stillLifeGrid 0 0) = 3"
    by (simp_all add: card_liveNeighbors)
  have a: "cell mixedGrid 0 0 = 12" "cell mixedGrid 1 0 = 1" "cell mixedGrid 0 2 = 0"
    "cell mixedGrid 0 1 = 1" "cell cornerGrid 1 1 = 0" "cell stillLifeGrid 0 0 = 12"
    by code_simp+
  have w: "agesWithin 12 mixedGrid" "agesWithin 12 cornerGrid" "agesWithin 12 stillLifeGrid"
    by code_simp+
  from C2_survival_and_birth [OF wf(1) i(1), where kMaxAge = 12]
    C2_survival_and_birth [OF wf(1) i(2), where kMaxAge = 12]
    C2_survival_and_birth [OF wf(1) i(3), where kMaxAge = 12]
    C2_survival_and_birth [OF wf(1) i(4), where kMaxAge = 12]
    C2_survival_and_birth [OF wf(2) i(5), where kMaxAge = 12]
    C2_survival_and_birth [OF wf(3) i(6), where kMaxAge = 12]
    n a wf i w
  show ?thesis by simp
qed

text \<open>
  C7. \<open>generateNextGenerationGrid\<close> leaves the grid it is given as it was, and
  returns a grid of the same numbers of rows and columns. The values are written
  into the clone, which starts as a copy of the input, and each of them is
  computed from the cell and the neighbour count of the unmodified input.
\<close>

theorem C7_fresh_grid_same_size:
  assumes "wellFormed grid"
  shows "snd (generateNextGenerationGrid kMaxAge grid) = grid \<and>
         cloneGrid grid = grid \<and>
         numRows (fst (generateNextGenerationGrid kMaxAge grid)) = numRows grid \<and>
         numCols (fst (generateNextGenerationGrid kMaxAge grid)) = numCols grid \<and>
         wellFormed (fst (generateNextGenerationGrid kMaxAge grid)) \<and>
         (\<forall>row col. inBounds grid row col \<longrightarrow>
            cell (fst (generateNextGenerationGrid kMaxAge grid)) row col =
              nextAge kMaxAge (countNeighborCell grid row col) (cell grid row col) (cell grid row col))"
  using generateNextGenerationGrid_props(1-3) [OF assms] cloneGrid_id [OF assms]
  by (simp add: generateNextGenerationGrid_input generateNextGenerationGrid_props(4) [OF assms]
        numRows_def numCols_def)

text \<open>On \<open>cornerGrid\<close> the returned grid differs from the input, which is unchanged.\<close>

theorem C7_fresh_grid_same_size_witness:
  "wellFormed cornerGrid \<and>
   snd (generateNextGenerationGrid 12 cornerGrid) = cornerGrid \<and>
   numRows (fst (generateNextGenerationGrid 12 cornerGrid)) = 3 \<and>
   numCols (fst (generateNextGenerationGrid 12 cornerGrid)) = 3 \<and>
   fst (generateNextGenerationGrid 12 cornerGrid) \<noteq> cornerGrid"
proof -
  have wf: "wellFormed cornerGrid" by code_simp
  have d: "numRows cornerGrid = 3" "numCols cornerGrid = 3" by code_simp+
  have "fst (generateNextGenerationGrid 12 cornerGrid) =
        \<lparr>rowCount = 3, columnCount = 3, elements = [[2, 2, 0], [2, 1, 0], [0, 0, 0]]\<rparr>"
    by code_simp
  then have ne: "fst (generateNextGenerationGrid 12 cornerGrid) \<noteq> cornerGrid"
    by (simp add: cornerGrid_def)
  from C7_fresh_grid_same_size [OF wf, where kMaxAge = 12] wf d ne show ?thesis
    by simp
qed

text \<open>
  C8. When \<open>isStableGrid\<close> holds of a grid and its next generation, one more
  application of \<open>generateNextGenerationGrid\<close> gives the same grid again.
\<close>

theorem C8_stable_is_fixed_point:
  assumes "isStableGrid kMaxAge grid (fst (generateNextGenerationGrid kMaxAge grid))"
  shows "fst (generateNextGenerationGrid kMaxAge (fst (generateNextGenerationGrid kMaxAge grid)))
           = fst (generateNextGenerationGrid kMaxAge grid)"
proof -
  from assms have "grid = fst (generateNextGenerationGrid kMaxAge grid)"
    by (simp add: isStableGrid_def split: if_splits)
  then show ?thesis by simp
qed

text \<open>A 2 by 2 block of cells at \<open>kMaxAge = 12\<close> is stable.\<close>

theorem C8_stable_is_fixed_point_witness:
  "isStableGrid 12 stillLifeGrid (fst (generateNextGenerationGrid 12 stillLifeGrid)) \<and>
   fst (generateNextGenerationGrid 12 (fst (generateNextGenerationGrid 12 stillLifeGrid)))
     = fst (generateNextGenerationGrid 12 stillLifeGrid)"
proof -
  have s: "isStableGrid 12 stillLifeGrid (fst (generateNextGenerationGrid 12 stillLifeGrid))"
    by code_simp
  from C8_stable_is_fixed_point [OF s] s show ?thesis by simp
qed


text \<open>
  C4. \<open>isStableGrid oldGrid newGrid\<close> holds exactly when no cell of \<open>newGrid\<close> has a
  value strictly between 0 and \<open>kMaxAge\<close> and \<open>newGrid\<close> has the sizes and, cell by
  cell, the values of \<open>oldGrid\<close>. The revision in \<^verbatim>\<open>life.cpp\<close>, which scans the old
  grid, gives the same answer on every pair of grids.
\<close>

theorem C4_isStableGrid:
  assumes "wellFormed oldGrid" and "wellFormed newGrid"
  shows "(isStableGrid kMaxAge oldGrid newGrid \<longleftrightarrow>
            (\<forall>r c. inBounds newGrid r c \<longrightarrow> \<not> (0 < cell newGrid r c \<and> cell newGrid r c < kMaxAge)) \<and>
            (numRows newGrid = numRows oldGrid \<and> numCols newGrid = numCols oldGrid \<and>
             (\<forall>r c. inBounds newGrid r c \<longrightarrow> cell newGrid r c = cell oldGrid r c))) \<and>
         isStableGrid_life kMaxAge oldGrid newGrid = isStableGrid kMaxAge oldGrid newGrid"
proof -
  have eq: "oldGrid = newGrid \<longleftrightarrow>
      numRows newGrid = numRows oldGrid \<and> numCols newGrid = numCols oldGrid \<and>
      (\<forall>r c. inBounds newGrid r c \<longrightarrow> cell newGrid r c = cell oldGrid r c)"
    by (rule Grid_eq_iff [OF assms])
  have "isStableGrid kMaxAge oldGrid newGrid \<longleftrightarrow>
      \<not> list_ex (\<lambda>age. age > 0 \<and> age < kMaxAge) (cellsOf newGrid) \<and> oldGrid = newGrid"
    by (simp add: isStableGrid_def)
  moreover have "isStableGrid_life kMaxAge oldGrid newGrid \<longleftrightarrow>
      \<not> list_ex (\<lambda>age. age > 0 \<and> age < kMaxAge) (cellsOf newGrid) \<and> oldGrid = newGrid"
    by (auto simp: isStableGrid_life_def)
  ultimately show ?thesis
    unfolding eq list_ex_cellsOf [OF assms(2)] by blast
qed

text \<open>
  The block at \<open>kMaxAge\<close> is stable against itself; \<open>birthGrid\<close> against itself is
  not, for its cell at (0, 1) is alive and below \<open>kMaxAge\<close>.
\<close>

theorem C4_isStableGrid_witness:
  "wellFormed stillLifeGrid \<and> isStableGrid 12 stillLifeGrid stillLifeGrid \<and>
   isStableGrid_life 12 stillLifeGrid stillLifeGrid \<and>
   wellFormed birthGrid \<and> \<not> isStableGrid 12 birthGrid birthGrid \<and>
   inBounds birthGrid 0 1 \<and> 0 < cell birthGrid 0 1 \<and> cell birthGrid 0 1 < 12"
proof -
  have wf: "wellFormed stillLifeGrid" "wellFormed birthGrid" by code_simp+
  have i: "inBounds birthGrid 0 1" "cell birthGrid 0 1 = 1" by code_simp+
  from C4_isStableGrid [OF wf(2) wf(2), where kMaxAge = 12] i(1)
  have "isStableGrid 12 birthGrid birthGrid \<longrightarrow> \<not> (0 < cell birthGrid 0 1 \<and> cell birthGrid 0 1 < 12)"
    by blast
  with i(2) have "\<not> isStableGrid 12 birthGrid birthGrid"
    by simp
  moreover have "isStableGrid 12 stillLifeGrid stillLifeGrid" by code_simp
  moreover from this C4_isStableGrid [OF wf(1) wf(1), where kMaxAge = 12]
  have "isStableGrid_life 12 stillLifeGrid stillLifeGrid" by simp
  ultimately show ?thesis using wf i by simp
qed

text \<open>
  C5. In both revisions \<open>advanceGrid\<close> computes the next generation of the grid it
  is given with the \<open>generateNextGenerationGrid\<close> of its file, returns whether
  \<open>isStableGrid\<close> fails of the old and the new grid, and leaves the new grid as
  the current one, drawn on the display, whatever the flag. In both revisions a
  timer event in the timed loop and an empty line in the manual loop go through
  this one step. On a false flag the timed loops and the manual loop of the
  final revision leave; the manual loop of \<^verbatim>\<open>life.cpp\<close> goes on from the grid of the
  step to its prompt for a new simulation.
\<close>

theorem C5_advanceGrid:
  "advanceGrid kMaxAge disp grid =
     (\<not> isStableGrid kMaxAge grid (fst (generateNextGenerationGrid kMaxAge grid)),
      drawGrid disp (fst (generateNextGenerationGrid kMaxAge grid)),
      fst (generateNextGenerationGrid kMaxAge grid)) \<and>
   runAnimation kMaxAge (TimerEvent # evs) (disp, grid) =
     (if fst (advanceGrid kMaxAge disp grid)
      then runAnimation kMaxAge evs (snd (advanceGrid kMaxAge disp grid))
      else Some (snd (advanceGrid kMaxAge disp grid))) \<and>
   runManualAnimation kMaxAge ([] # rest) (disp, grid) =
     (if fst (advanceGrid kMaxAge disp grid)
      then runManualAnimation kMaxAge rest (snd (advanceGrid kMaxAge disp grid))
      else Some (Inr (rest, snd (advanceGrid kMaxAge disp grid)))) \<and>
   advanceGrid_life kMaxAge disp grid =
     (\<not> isStableGrid_life kMaxAge grid (fst (generateNextGenerationGrid_life kMaxAge grid)),
      drawGrid disp (fst (generateNextGenerationGrid_life kMaxAge grid)),
      fst (generateNextGenerationGrid_life kMaxAge grid)) \<and>
   snd (generateNextGenerationGrid_life kMaxAge grid) = grid \<and>
   runAnimation_life kMaxAge (TimerEvent # evs) (disp, grid) =
     (if fst (advanceGrid_life kMaxAge disp grid)
      then runAnimation_life kMaxAge evs (snd (advanceGrid_life kMaxAge disp grid))
      else Some (snd (advanceGrid_life kMaxAge disp grid))) \<and>
   runManualAnimation_life kMaxAge files stringToInteger draw seed ([] # rest, n, disp, grid) =
     (if fst (advanceGrid_life kMaxAge disp grid)
      then runManualAnimation_life kMaxAge files stringToInteger draw seed
             (rest, n, snd (advanceGrid_life kMaxAge disp grid))
      else (case sessionPrompt_life kMaxAge files stringToInteger draw seed
                   (rest, n, snd (advanceGrid_life kMaxAge disp grid)) of
              None \<Rightarrow> None
            | Some (Inl e) \<Rightarrow> Some (Inl e)
            | Some (Inr (leave, s')) \<Rightarrow>
                if leave then Some (Inr s')
                else runManualAnimation_life kMaxAge files stringToInteger draw seed s'))"
proof -
  have manual: "runManualAnimation kMaxAge ([] # rest) (disp, grid) =
     (if fst (advanceGrid kMaxAge disp grid)
      then runManualAnimation kMaxAge rest (snd (advanceGrid kMaxAge disp grid))
      else Some (Inr (rest, snd (advanceGrid kMaxAge disp grid))))"
    by (subst runManualAnimation.simps) (simp add: manualStep_def advanceGrid_eq)
  have pass: "manualPass_life kMaxAge files stringToInteger draw seed ([] # rest, n, disp, grid) =
     (if fst (advanceGrid_life kMaxAge disp grid)
      then Some (Inr (False, rest, n, snd (advanceGrid_life kMaxAge disp grid)))
      else sessionPrompt_life kMaxAge files stringToInteger draw seed
             (rest, n, snd (advanceGrid_life kMaxAge disp grid)))"
    by (simp add: manualPass_life_def advanceGrid_life_eq)
  have manual_life:
    "runManualAnimation_life kMaxAge files stringToInteger draw seed ([] # rest, n, disp, grid) =
     (if fst (advanceGrid_life kMaxAge disp grid)
      then runManualAnimation_life kMaxAge files stringToInteger draw seed
             (rest, n, snd (advanceGrid_life kMaxAge disp grid))
      else (case sessionPrompt_life kMaxAge files stringToInteger draw seed
                   (rest, n, snd (advanceGrid_life kMaxAge disp grid)) of
              None \<Rightarrow> None
            | Some (Inl e) \<Rightarrow> Some (Inl e)
            | Some (Inr (leave, s')) \<Rightarrow>
                if leave then Some (Inr s')
                else runManualAnimation_life kMaxAge files stringToInteger draw seed s'))"
    by (subst runManualAnimation_life.simps) (simp add: pass)
  have timed_life: "runAnimation_life kMaxAge (TimerEvent # evs) (disp, grid) =
     (if fst (advanceGrid_life kMaxAge disp grid)
      then runAnimation_life kMaxAge evs (snd (advanceGrid_life kMaxAge disp grid))
      else Some (snd (advanceGrid_life kMaxAge disp grid)))"
    by (simp add: advanceGrid_life_eq)
  have input_life: "snd (generateNextGenerationGrid_life kMaxAge grid) = grid"
    by (subst generateNextGenerationGrid_life_pair) simp
  from manual manual_life timed_life input_life show ?thesis
    by (simp add: advanceGrid_eq advanceGrid_life_eq)
qed

text \<open>
  With \<open>kMaxAge = 12\<close>: one step on the stable block in both revisions, alone and
  through each loop (in \<^verbatim>\<open>life.cpp\<close> the line quit answers the prompt for a new
  simulation), and one step of \<^verbatim>\<open>life.cpp\<close> on a single cell of age 1, which
  it ages to 2.
\<close>

theorem C5_advanceGrid_witness:
  "advanceGrid 12 [] stillLifeGrid =
     (False, [DrawCellAt 0 0 12, DrawCellAt 0 1 12, DrawCellAt 1 0 12, DrawCellAt 1 1 12,
              PrintBoard, Repaint], stillLifeGrid) \<and>
   runAnimation 12 [TimerEvent] ([], stillLifeGrid) = Some (snd (advanceGrid 12 [] stillLifeGrid)) \<and>
   runManualAnimation 12 [[]] ([], stillLifeGrid) = Some (Inr ([], snd (advanceGrid 12 [] stillLifeGrid))) \<and>
   advanceGrid_life 12 [] loneGrid =
     (True, [DrawCellAt 0 0 2, PrintBoard, Repaint],
      \<lparr>rowCount = 1, columnCount = 1, elements = [[2]]\<rparr>) \<and>
   advanceGrid_life 12 [] stillLifeGrid =
     (False, [DrawCellAt 0 0 12, DrawCellAt 0 1 12, DrawCellAt 1 0 12, DrawCellAt 1 1 12,
              PrintBoard, Repaint], stillLifeGrid) \<and>
   runAnimation_life 12 [TimerEvent] ([], stillLifeGrid) =
     Some (snd (advanceGrid_life 12 [] stillLifeGrid)) \<and>
   runManualAnimation_life 12 oneFile digitToInteger alternatingDraw (\<lambda>n. n)
       ([[], ''quit''], 0, [], stillLifeGrid) =
     Some (Inr ([], 0, snd (advanceGrid_life 12 [] stillLifeGrid)))"
proof -
  have a: "advanceGrid 12 [] stillLifeGrid =
     (False, [DrawCellAt 0 0 12, DrawCellAt 0 1 12, DrawCellAt 1 0 12, DrawCellAt 1 1 12,
              PrintBoard, Repaint], stillLifeGrid)"
    unfolding stillLifeGrid_def by code_simp
  have b: "advanceGrid_life 12 [] stillLifeGrid =
     (False, [DrawCellAt 0 0 12, DrawCellAt 0 1 12, DrawCellAt 1 0 12, DrawCellAt 1 1 12,
              PrintBoard, Repaint], stillLifeGrid)"
    unfolding stillLifeGrid_def by code_simp
  have c: "advanceGrid_life 12 [] loneGrid =
     (True, [DrawCellAt 0 0 2, PrintBoard, Repaint],
      \<lparr>rowCount = 1, columnCount = 1, elements = [[2]]\<rparr>)"
    by code_simp
  have fa: "fst (advanceGrid 12 [] stillLifeGrid) = False" by (simp only: a fst_conv)
  have fb: "fst (advanceGrid_life 12 [] stillLifeGrid) = False" by (simp only: b fst_conv)
  note one = C5_advanceGrid [where kMaxAge = 12 and disp = "[]" and grid = stillLifeGrid and evs = "[]"
      and rest = "[]"]
  note two = C5_advanceGrid [where kMaxAge = 12 and disp = "[]" and grid = stillLifeGrid
      and rest = "[''quit'']" and files = oneFile and stringToInteger = digitToInteger
      and draw = alternatingDraw and seed = "\<lambda>n. n" and n = 0]
  from one have "runAnimation 12 [TimerEvent] ([], stillLifeGrid) =
     (if fst (advanceGrid 12 [] stillLifeGrid)
      then runAnimation 12 [] (snd (advanceGrid 12 [] stillLifeGrid))
      else Some (snd (advanceGrid 12 [] stillLifeGrid)))"
    by blast
  then have t: "runAnimation 12 [TimerEvent] ([], stillLifeGrid) =
      Some (snd (advanceGrid 12 [] stillLifeGrid))"
    by (simp only: fa if_False)
  from one have "runManualAnimation 12 [[]] ([], stillLifeGrid) =
     (if fst (advanceGrid 12 [] stillLifeGrid)
      then runManualAnimation 12 [] (snd (advanceGrid 12 [] stillLifeGrid))
      else Some (Inr ([], snd (advanceGrid 12 [] stillLifeGrid))))"
    by blast
  then have m: "runManualAnimation 12 [[]] ([], stillLifeGrid) =
      Some (Inr ([], snd (advanceGrid 12 [] stillLifeGrid)))"
    by (simp only: fa if_False)
  from one have "runAnimation_life 12 [TimerEvent] ([], stillLifeGrid) =
     (if fst (advanceGrid_life 12 [] stillLifeGrid)
      then runAnimation_life 12 [] (snd (advanceGrid_life 12 [] stillLifeGrid))
      else Some (snd (advanceGrid_life 12 [] stillLifeGrid)))"
    by blast
  then have tl: "runAnimation_life 12 [TimerEvent] ([], stillLifeGrid) =
      Some (snd (advanceGrid_life 12 [] stillLifeGrid))"
    by (simp only: fb if_False)
  have s: "sessionPrompt_life 12 oneFile digitToInteger alternatingDraw (\<lambda>n. n)
             ([''quit''], 0, snd (advanceGrid_life 12 [] stillLifeGrid))
           = Some (Inr (True, [], 0, snd (advanceGrid_life 12 [] stillLifeGrid)))"
    by (simp add: sessionPrompt_life_def split_beta)
  from two have "runManualAnimation_life 12 oneFile digitToInteger alternatingDraw (\<lambda>n. n)
       ([[], ''quit''], 0, [], stillLifeGrid) =
     (if fst (advanceGrid_life 12 [] stillLifeGrid)
      then runManualAnimation_life 12 oneFile digitToInteger alternatingDraw (\<lambda>n. n)
             ([''quit''], 0, snd (advanceGrid_life 12 [] stillLifeGrid))
      else (case sessionPrompt_life 12 oneFile digitToInteger alternatingDraw (\<lambda>n. n)
                   ([''quit''], 0, snd (advanceGrid_life 12 [] stillLifeGrid)) of
              None \<Rightarrow> None
            | Some (Inl e) \<Rightarrow> Some (Inl e)
            | Some (Inr (leave, s')) \<Rightarrow>
                if leave then Some (Inr s')
                else runManualAnimation_life 12 oneFile digitToInteger alternatingDraw (\<lambda>n. n) s'))"
    by blast
  then have ml: "runManualAnimation_life 12 oneFile digitToInteger alternatingDraw (\<lambda>n. n)
       ([[], ''quit''], 0, [], stillLifeGrid) =
     Some (Inr ([], 0, snd (advanceGrid_life 12 [] stillLifeGrid)))"
    by (simp add: fb s)
  from a t m c b tl ml show ?thesis
    by blast
qed

text \<open>
  C9. At the speed prompt the lines 1, 2 and 3 select 1000, 500 and 100
  milliseconds and every other line ends the program with exit code 1 after the
  message of an unsupported option. In \<open>runManualAnimation\<close> an empty line advances
  the grid by exactly one generation (and the loop goes on unless that
  generation is stable), the line quit leaves the loop with the grid as it is,
  and every other line ends the program after the message of an unsupported
  command.
\<close>

theorem C9_prompts:
  "main_speed ''1'' = Inr 1000 \<and> main_speed ''2'' = Inr 500 \<and> main_speed ''3'' = Inr 100 \<and>
   (line \<noteq> ''1'' \<and> line \<noteq> ''2'' \<and> line \<noteq> ''3'' \<longrightarrow>
      main_speed line = Inl (Exit 1 ''The option is not supported, quitting'')) \<and>
   runManualAnimation kMaxAge ([] # rest) (disp, grid) =
     (if isStableGrid kMaxAge grid (fst (generateNextGenerationGrid kMaxAge grid))
      then Some (Inr (rest, drawGrid disp (fst (generateNextGenerationGrid kMaxAge grid)),
                      fst (generateNextGenerationGrid kMaxAge grid)))
      else runManualAnimation kMaxAge rest
             (drawGrid disp (fst (generateNextGenerationGrid kMaxAge grid)),
              fst (generateNextGenerationGrid kMaxAge grid))) \<and>
   runManualAnimation kMaxAge (''quit'' # rest) (disp, grid) = Some (Inr (rest, disp, grid)) \<and>
   (line \<noteq> [] \<and> line \<noteq> ''quit'' \<longrightarrow>
      runManualAnimation kMaxAge (line # rest) (disp, grid) =
        Some (Inl (Exit 0 ''Command not support, quitting'')))"
proof -
  have enter: "runManualAnimation kMaxAge ([] # rest) (disp, grid) =
     (if isStableGrid kMaxAge grid (fst (generateNextGenerationGrid kMaxAge grid))
      then Some (Inr (rest, drawGrid disp (fst (generateNextGenerationGrid kMaxAge grid)),
                      fst (generateNextGenerationGrid kMaxAge grid)))
      else runManualAnimation kMaxAge rest
             (drawGrid disp (fst (generateNextGenerationGrid kMaxAge grid)),
              fst (generateNextGenerationGrid kMaxAge grid)))"
    by (subst runManualAnimation.simps) (simp add: manualStep_def advanceGrid_eq)
  have quit: "runManualAnimation kMaxAge (''quit'' # rest) (disp, grid) = Some (Inr (rest, disp, grid))"
    by (subst runManualAnimation.simps) (simp add: manualStep_def)
  have other: "runManualAnimation kMaxAge (line # rest) (disp, grid) =
        Some (Inl (Exit 0 ''Command not support, quitting''))"
    if "line \<noteq> []" "line \<noteq> ''quit''"
    using that by (subst runManualAnimation.simps) (simp add: manualStep_def)
  have speed: "main_speed ''1'' = Inr 1000" "main_speed ''2'' = Inr 500" "main_speed ''3'' = Inr 100"
    "line \<noteq> ''1'' \<and> line \<noteq> ''2'' \<and> line \<noteq> ''3'' \<longrightarrow>
      main_speed line = Inl (Exit 1 ''The option is not supported, quitting'')"
    by (simp_all add: main_speed_def)
  from enter quit other speed show ?thesis
    by blast
qed

text \<open>The lines 4 at the speed prompt, and stop and quit in manual mode.\<close>

theorem C9_prompts_witness:
  "''4'' \<noteq> ''1'' \<and> ''4'' \<noteq> ''2'' \<and> ''4'' \<noteq> ''3'' \<and>
   main_speed ''4'' = Inl (Exit 1 ''The option is not supported, quitting'') \<and>
   ''stop'' \<noteq> [] \<and> ''stop'' \<noteq> ''quit'' \<and>
   runManualAnimation 12 [''stop'', ''quit''] ([], birthGrid) =
     Some (Inl (Exit 0 ''Command not support, quitting'')) \<and>
   runManualAnimation 12 [''quit'', []] ([], birthGrid) = Some (Inr ([[]], [], birthGrid))"
  using C9_prompts [of "''4''" 12 "[''quit'']" "[]" birthGrid]
    C9_prompts [of "''stop''" 12 "[''quit'']" "[]" birthGrid]
    C9_prompts [of "''stop''" 12 "[[]]" "[]" birthGrid]
  by simp

text \<open>
  C6. When every cell of a grid lies in \<open>[0, kMaxAge]\<close>, so does every cell of the
  grid that \<open>generateNextGenerationGrid\<close> returns. With \<open>kMaxAge \<ge> 1\<close> the two
  sources of the first grid establish this: a grid that \<open>readGridFromFile\<close> returns
  has cells 0 or 1, and a grid of \<open>generateRandomGrid\<close>, for every generator whose
  draws lie between the bounds asked for, has cells 0 or in \<open>[1, kMaxAge]\<close>.
\<close>

theorem C6_ages_stay_within:
  "(wellFormed grid \<and> agesWithin kMaxAge grid \<longrightarrow>
      wellFormed (fst (generateNextGenerationGrid kMaxAge grid)) \<and>
      agesWithin kMaxAge (fst (generateNextGenerationGrid kMaxAge grid))) \<and>
   (1 \<le> kMaxAge \<and> readGridFromFile files stringToInteger filename = Some (Inr fileGrid) \<longrightarrow>
      wellFormed fileGrid \<and> list_all (\<lambda>age. age = 0 \<or> age = 1) (cellsOf fileGrid) \<and>
      agesWithin kMaxAge fileGrid) \<and>
   (1 \<le> kMaxAge \<and>
    (\<forall>lo hi gen. lo \<le> hi \<longrightarrow> lo \<le> fst (draw lo hi gen) \<and> fst (draw lo hi gen) \<le> hi) \<longrightarrow>
      wellFormed (generateRandomGrid kMaxAge draw gen) \<and>
      list_all (\<lambda>age. age = 0 \<or> 1 \<le> age \<and> age \<le> kMaxAge)
        (cellsOf (generateRandomGrid kMaxAge draw gen)) \<and>
      agesWithin kMaxAge (generateRandomGrid kMaxAge draw gen))"
proof (intro conjI impI)
  assume "wellFormed grid \<and> agesWithin kMaxAge grid"
  then show "wellFormed (fst (generateNextGenerationGrid kMaxAge grid))"
    "agesWithin kMaxAge (fst (generateNextGenerationGrid kMaxAge grid))"
    by (simp_all add: generateNextGenerationGrid_props(1) generateNextGenerationGrid_agesWithin)
next
  assume h: "1 \<le> kMaxAge \<and> readGridFromFile files stringToInteger filename = Some (Inr fileGrid)"
  then have c: "wellFormed fileGrid \<and> list_all (\<lambda>age. age = 0 \<or> age = 1) (cellsOf fileGrid)"
    using readGridFromFile_cells [of files stringToInteger filename fileGrid] by simp
  then show "wellFormed fileGrid" "list_all (\<lambda>age. age = 0 \<or> age = 1) (cellsOf fileGrid)"
    by simp_all
  from c h show "agesWithin kMaxAge fileGrid"
    unfolding agesWithin_def by (auto elim: list_all_weaken)
next
  assume h: "1 \<le> kMaxAge \<and>
    (\<forall>lo hi gen. lo \<le> hi \<longrightarrow> lo \<le> fst (draw lo hi gen) \<and> fst (draw lo hi gen) \<le> hi)"
  then have c: "wellFormed (generateRandomGrid kMaxAge draw gen) \<and>
         list_all (\<lambda>age. age = 0 \<or> 1 \<le> age \<and> age \<le> kMaxAge)
           (cellsOf (generateRandomGrid kMaxAge draw gen))"
    by (intro generateRandomGrid_cells) simp_all
  then show "wellFormed (generateRandomGrid kMaxAge draw gen)"
    "list_all (\<lambda>age. age = 0 \<or> 1 \<le> age \<and> age \<le> kMaxAge)
           (cellsOf (generateRandomGrid kMaxAge draw gen))"
    by simp_all
  from c h show "agesWithin kMaxAge (generateRandomGrid kMaxAge draw gen)"
    unfolding agesWithin_def by (auto elim: list_all_weaken)
qed

text \<open>
  \<open>agedGrid\<close> and its next generation, the grid read from a file of two rows, and
  the random grid of a generator that alternates between the two bounds.
\<close>

theorem C6_ages_stay_within_witness:
  "wellFormed agedGrid \<and> agesWithin 12 agedGrid \<and>
   agesWithin 12 (fst (generateNextGenerationGrid 12 agedGrid)) \<and>
   readGridFromFile oneFile digitToInteger ''glider.txt'' =
     Some (Inr \<lparr>rowCount = 2, columnCount = 3, elements = [[1, 0, 1], [0, 1, 0]]\<rparr>) \<and>
   agesWithin 12 \<lparr>rowCount = 2, columnCount = 3, elements = [[1, 0, 1], [0, 1, 0]]\<rparr> \<and>
   wellFormed (generateRandomGrid 12 alternatingDraw 0) \<and>
   agesWithin 12 (generateRandomGrid 12 alternatingDraw 0)"
proof -
  have g: "wellFormed agedGrid \<and> agesWithin 12 agedGrid"
    by code_simp
  have f: "readGridFromFile oneFile digitToInteger ''glider.txt'' =
     Some (Inr \<lparr>rowCount = 2, columnCount = 3, elements = [[1, 0, 1], [0, 1, 0]]\<rparr>)"
    by code_simp
  have d: "\<forall>lo hi gen. lo \<le> hi \<longrightarrow>
      lo \<le> fst (alternatingDraw lo hi gen) \<and> fst (alternatingDraw lo hi gen) \<le> hi"
    by (simp add: alternatingDraw_def)
  from C6_ages_stay_within [of agedGrid 12 oneFile digitToInteger "''glider.txt''"
      "\<lparr>rowCount = 2, columnCount = 3, elements = [[1, 0, 1], [0, 1, 0]]\<rparr>" alternatingDraw 0] g f d
  show ?thesis by simp
qed

text \<open>
  C10. For two grids of ages (no cell below 0, as in the data model and in every
  grid the program passes to the function) of the same sizes that agree at
  every position on being above 0, the grids that \<open>generateNextGenerationGrid\<close>
  returns agree at every position on being above 0, whatever the ages are.
\<close>

theorem C10_aliveness_only:
  assumes "wellFormed g1" and "wellFormed g2" and "noNegative g1" and "noNegative g2"
    and "sameAliveness g1 g2"
  shows "sameAliveness (fst (generateNextGenerationGrid kMaxAge g1))
                       (fst (generateNextGenerationGrid kMaxAge g2))"
proof -
  note p1 = generateNextGenerationGrid_props [OF assms(1)]
  note p2 = generateNextGenerationGrid_props [OF assms(2)]
  from assms have s: "rowCount g1 = rowCount g2" "columnCount g1 = columnCount g2"
    "\<And>r c. inBounds g1 r c \<Longrightarrow> (0 < cell g1 r c) = (0 < cell g2 r c)"
    by (simp_all add: sameAliveness_iff)
  then have inb: "inBounds g1 r c = inBounds g2 r c" for r c
    by (simp add: inBounds_def numRows_def numCols_def)
  have nn: "0 \<le> cell g1 r c" "0 \<le> cell g2 r c" if "inBounds g1 r c" for r c
    using assms(3,4) that inb
    by (simp_all add: noNegative_def list_all_cellsOf [OF assms(1)] list_all_cellsOf [OF assms(2)])
  have "(0 < cell (fst (generateNextGenerationGrid kMaxAge g1)) r c)
      = (0 < cell (fst (generateNextGenerationGrid kMaxAge g2)) r c)"
    if "inBounds (fst (generateNextGenerationGrid kMaxAge g1)) r c" for r c
  proof -
    from that have i1: "inBounds g1 r c"
      by (simp add: inBounds_def numRows_def numCols_def p1(2,3))
    then have i2: "inBounds g2 r c" by (simp add: inb)
    show ?thesis
      unfolding p1(4) [OF i1] p2(4) [OF i2]
        countNeighborCell_sameAliveness [OF assms(1,2,5)]
      by (rule nextAge_alive [OF nn [OF i1] s(3) [OF i1]])
  qed
  then show ?thesis
    by (simp add: sameAliveness_iff [OF p1(1) p2(1)] p1(2,3) p2(2,3) s(1,2))
qed

text \<open>\<open>birthGrid\<close> and \<open>agedGrid\<close> have the same live cells at different ages.\<close>

theorem C10_aliveness_only_witness:
  "wellFormed birthGrid \<and> wellFormed agedGrid \<and> noNegative birthGrid \<and> noNegative agedGrid \<and>
   sameAliveness birthGrid agedGrid \<and>
   sameAliveness (fst (generateNextGenerationGrid 12 birthGrid))
                 (fst (generateNextGenerationGrid 12 agedGrid))"
proof -
  have h: "wellFormed birthGrid" "wellFormed agedGrid" "noNegative birthGrid" "noNegative agedGrid"
    "sameAliveness birthGrid agedGrid"
    by code_simp+
  from C10_aliveness_only [OF h, where kMaxAge = 12] h show ?thesis
    by simp
qed

end
